theory Spec2Isabelle
  imports
    Complex_Main
    "HOL-Library.Word"
    "HOL-Library.Char_ord"
    "HOL-Library.List_Lexorder"
    "HOL-Library.Product_Lexorder"
    "HOL-Library.AList"
begin

section \<open>Common data\<close>

text \<open>
  Gene, drug and disease identifiers are opaque Python \<open>str\<close> values. Python floats are
  modelled by exact reals plus the one special value the code produces on purpose,
  \<open>float("inf")\<close>. Exceptions are values of \<open>error\<close>; a function that can raise returns
  \<open>error + 'a\<close>.
\<close>

type_synonym gene = string

datatype error = IndexError | ValueError | KeyError | ZeroDivisionError | NodeNotFound | NetworkXNoPath

datatype pyfloat = Finite real | PosInf

section \<open>Distance matrix store, read path (scripts/annotate\_pairs\_with\_ppi\_from\_matrix.py)\<close>

text \<open>
  \<open>load_distance_matrix\<close> opens the file as \<open>np.memmap(..., dtype=np.uint16, mode="r",
  shape=(N, N))\<close>: a list of \<open>N\<close> rows of \<open>N\<close> unsigned 16-bit cells. The script never
  checks an index itself; every read is a plain numpy subscript \<open>dist[i]\<close>, \<open>row[j]\<close>.
  A numpy integer subscript \<open>i\<close> on an axis of length \<open>n\<close> addresses element \<open>i\<close> when
  \<open>0 \<le> i < n\<close>, element \<open>i + n\<close> when \<open>-n \<le> i < 0\<close>, and raises \<open>IndexError\<close>
  otherwise.
\<close>

type_synonym dist_matrix = "16 word list list"

definition wf_matrix :: "nat \<Rightarrow> dist_matrix \<Rightarrow> bool" where
  "wf_matrix N dmat = (length dmat = N \<and> list_all (\<lambda>row. length row = N) dmat)"

definition np_getitem :: "'a list \<Rightarrow> int \<Rightarrow> error + 'a" where
  "np_getitem xs i =
     (let n = int (length xs) in
      if 0 \<le> i \<and> i < n then Inr (xs ! nat i)
      else if - n \<le> i \<and> i < 0 then Inr (xs ! nat (i + n))
      else Inl IndexError)"

text \<open>The point lookup as the scorer performs it: \<open>row = dist[i]\<close>, then \<open>row[j]\<close>.\<close>

definition dist_lookup :: "dist_matrix \<Rightarrow> int \<Rightarrow> int \<Rightarrow> error + 16 word" where
  "dist_lookup dmat i j =
     (case np_getitem dmat i of Inl e \<Rightarrow> Inl e | Inr row \<Rightarrow> np_getitem row j)"

section \<open>Pairwise proximity scorer (scripts/annotate\_pairs\_with\_ppi\_from\_matrix.py)\<close>

text \<open>
  \<open>[gene_to_idx[g] for g in set(genes) if g in gene_to_idx]\<close>. The iteration order of a
  Python set is unspecified; \<open>remdups\<close> fixes one order, and the result of the scorer is
  shown below to be a sum over sets, so the choice does not matter.
\<close>

definition index_list :: "(gene \<rightharpoonup> int) \<Rightarrow> gene list \<Rightarrow> int list" where
  "index_list gene_to_idx genes = List.map_filter gene_to_idx (remdups genes)"

text \<open>The inner loop \<open>for j in idx_s: d = int(row[j]); if d < max_val: dists.append(d)\<close>.\<close>

fun collect_row :: "16 word list \<Rightarrow> int list \<Rightarrow> nat \<Rightarrow> nat list \<Rightarrow> error + nat list" where
  "collect_row row [] max_val dists = Inr dists"
| "collect_row row (j # js) max_val dists =
     (case np_getitem row j of
        Inl e \<Rightarrow> Inl e
      | Inr w \<Rightarrow>
          collect_row row js max_val
            (if unat w < max_val then dists @ [unat w] else dists))"

text \<open>The outer loop \<open>for i in idx_d: row = dist[i]; ...\<close>.\<close>

fun collect_dists ::
  "dist_matrix \<Rightarrow> int list \<Rightarrow> int list \<Rightarrow> nat \<Rightarrow> nat list \<Rightarrow> error + nat list" where
  "collect_dists dmat [] idx_s max_val dists = Inr dists"
| "collect_dists dmat (i # is) idx_s max_val dists =
     (case np_getitem dmat i of
        Inl e \<Rightarrow> Inl e
      | Inr row \<Rightarrow>
          (case collect_row row idx_s max_val dists of
             Inl e \<Rightarrow> Inl e
           | Inr dists' \<Rightarrow> collect_dists dmat is idx_s max_val dists'))"

definition mean_distance_for_pair ::
  "string \<Rightarrow> string \<Rightarrow> (string \<rightharpoonup> gene list) \<Rightarrow> (string \<rightharpoonup> gene list) \<Rightarrow>
   (gene \<rightharpoonup> int) \<Rightarrow> dist_matrix \<Rightarrow> nat \<Rightarrow> error + pyfloat" where
  "mean_distance_for_pair drug_id disease_id drug_to_genes disease_to_genes gene_to_idx dmat max_val =
     (case (drug_to_genes drug_id, disease_to_genes disease_id) of
        (Some genes_d, Some genes_s) \<Rightarrow>
          if genes_d = [] \<or> genes_s = [] then Inr PosInf
          else
            let idx_d = index_list gene_to_idx genes_d;
                idx_s = index_list gene_to_idx genes_s
            in if idx_d = [] \<or> idx_s = [] then Inr PosInf
               else (case collect_dists dmat idx_d idx_s max_val [] of
                       Inl e \<Rightarrow> Inl e
                     | Inr dists \<Rightarrow>
                         if dists = [] then Inr PosInf
                         else Inr (Finite (real (sum_list dists) / real (length dists))))
      | _ \<Rightarrow> Inr PosInf)"

text \<open>
  The transform in \<open>annotate_pairs\<close>: \<open>0.0 if np.isinf(d) else 1.0 / (1.0 + d)\<close>.
\<close>

fun proximity_of :: "pyfloat \<Rightarrow> real" where
  "proximity_of PosInf = 0"
| "proximity_of (Finite d) = 1 / (1 + d)"

text \<open>
  \<open>str.strip()\<close>: leading and trailing whitespace is removed. The whitespace characters
  below code 256 are the ones \<open>str.isspace\<close> accepts.
\<close>

definition isspace :: "char \<Rightarrow> bool" where
  "isspace c \<longleftrightarrow>
     c \<in> set [CHR 0x09, CHR 0x0A, CHR 0x0B, CHR 0x0C, CHR 0x0D, CHR 0x1C, CHR 0x1D, CHR 0x1E,
              CHR 0x1F, CHR 0x20, CHR 0x85, CHR 0xA0]"

definition strip :: "string \<Rightarrow> string" where
  "strip s = rev (dropWhile isspace (rev (dropWhile isspace s)))"

text \<open>
  \<open>annotate_pairs\<close> on the rows of the pairs table, in order: the two identifiers of a row
  are stripped first (\<open>astype(str).str.strip()\<close>; the identifiers are strings already), then
  one \<open>(mean_distance, proximity_score)\<close> is computed per row; an exception of any row
  aborts the run. The chunking of the source only groups the progress messages.
\<close>

fun annotate_pairs ::
  "(string \<times> string) list \<Rightarrow> (string \<rightharpoonup> gene list) \<Rightarrow> (string \<rightharpoonup> gene list) \<Rightarrow>
   (gene \<rightharpoonup> int) \<Rightarrow> dist_matrix \<Rightarrow> nat \<Rightarrow> error + (pyfloat \<times> real) list" where
  "annotate_pairs [] drug_to_genes disease_to_genes gene_to_idx dmat max_val = Inr []"
| "annotate_pairs ((d_id, dis_id) # rows) drug_to_genes disease_to_genes gene_to_idx dmat max_val =
     (case mean_distance_for_pair (strip d_id) (strip dis_id) drug_to_genes disease_to_genes
             gene_to_idx dmat max_val of
        Inl e \<Rightarrow> Inl e
      | Inr md \<Rightarrow>
          (case annotate_pairs rows drug_to_genes disease_to_genes gene_to_idx dmat max_val of
             Inl e \<Rightarrow> Inl e
           | Inr rest \<Rightarrow> Inr ((md, proximity_of md) # rest)))"

subsection \<open>Facts about the subscript\<close>

lemma np_getitem_in_range:
  "0 \<le> i \<Longrightarrow> i < int (length xs) \<Longrightarrow> np_getitem xs i = Inr (xs ! nat i)"
  by (simp add: np_getitem_def)

lemma np_getitem_error_iff:
  "np_getitem xs i = Inl e \<longleftrightarrow> e = IndexError \<and> (i < - int (length xs) \<or> int (length xs) \<le> i)"
  by (auto simp: np_getitem_def Let_def)

lemma np_getitem_value:
  "- int (length xs) \<le> i \<Longrightarrow> i < int (length xs) \<Longrightarrow>
   np_getitem xs i = Inr (xs ! nat (i mod int (length xs)))"
proof (cases "0 \<le> i")
  case True
  assume "i < int (length xs)"
  with True show ?thesis by (simp add: np_getitem_def)
next
  case False
  assume lo: "- int (length xs) \<le> i" and "i < int (length xs)"
  from False lo have "(i + int (length xs)) mod int (length xs) = i + int (length xs)"
    by (intro mod_pos_pos_trivial) linarith+
  then have "i mod int (length xs) = i + int (length xs)"
    by simp
  with False lo show ?thesis by (simp add: np_getitem_def)
qed

text \<open>
  Claim C4 (as amended). On an \<open>N \<times> N\<close> matrix the lookup \<open>dist[i][j]\<close> raises
  \<open>IndexError\<close> exactly when \<open>i\<close> or \<open>j\<close> lies outside \<open>[-N, N)\<close>; inside that range it
  returns the cell at \<open>(i mod N, j mod N)\<close>, so a negative index in \<open>[-N, 0)\<close> counts from
  the end. No index is clamped and no sentinel is substituted.
\<close>

theorem dist_lookup_index_error:
  assumes "wf_matrix N dmat"
  shows "(dist_lookup dmat i j = Inl IndexError \<longleftrightarrow>
            (i < - int N \<or> int N \<le> i \<or> j < - int N \<or> int N \<le> j))
         \<and> (- int N \<le> i \<and> i < int N \<and> - int N \<le> j \<and> j < int N \<longrightarrow>
            dist_lookup dmat i j = Inr (dmat ! nat (i mod int N) ! nat (j mod int N)))"
proof -
  from assms have len: "length dmat = N" and rows: "\<And>k. k < N \<Longrightarrow> length (dmat ! k) = N"
    by (auto simp: wf_matrix_def list_all_length)
  show ?thesis
  proof (cases "- int N \<le> i \<and> i < int N")
    case False
    then have "np_getitem dmat i = Inl IndexError"
      using len np_getitem_error_iff [of dmat i IndexError] by auto
    with False show ?thesis by (auto simp: dist_lookup_def)
  next
    case True
    then have N: "0 < int N" by linarith
    from True have row: "np_getitem dmat i = Inr (dmat ! nat (i mod int N))"
      using len np_getitem_value [of dmat i] by simp
    have "nat (i mod int N) < N" using N by (simp add: nat_less_iff)
    then have rl: "length (dmat ! nat (i mod int N)) = N" by (rule rows)
    show ?thesis
    proof (cases "- int N \<le> j \<and> j < int N")
      case False
      then have "np_getitem (dmat ! nat (i mod int N)) j = Inl IndexError"
        using rl np_getitem_error_iff [of "dmat ! nat (i mod int N)" j IndexError] by auto
      with False row show ?thesis by (auto simp: dist_lookup_def)
    next
      case j: True
      then have "np_getitem (dmat ! nat (i mod int N)) j =
                 Inr (dmat ! nat (i mod int N) ! nat (j mod int N))"
        using rl np_getitem_value [of "dmat ! nat (i mod int N)" j] by simp
      with True j row show ?thesis by (auto simp: dist_lookup_def)
    qed
  qed
qed

theorem dist_lookup_index_error_witness:
  "dist_lookup [[0, 65535], [7, 0]] 2 0 = Inl IndexError
   \<and> dist_lookup [[0, 65535], [7, 0]] 1 (- 3) = Inl IndexError
   \<and> dist_lookup [[0, 65535], [7, 0]] 1 0 = Inr 7"
  using dist_lookup_index_error [of 2 "[[0, 65535], [7, 0]]" 2 0]
    dist_lookup_index_error [of 2 "[[0, 65535], [7, 0]]" 1 "- 3"]
    dist_lookup_index_error [of 2 "[[0, 65535], [7, 0]]" 1 0]
  by (simp add: wf_matrix_def)

text \<open>
  Claim C4 as stated fails: \<open>-1\<close> is outside \<open>[0, N)\<close> for \<open>N = 2\<close>, yet the lookup does
  not fail; it silently returns the cell of the last row.
\<close>

theorem dist_lookup_negative_index_counterexample:
  "\<not> (0 \<le> (- 1 :: int)) \<and> dist_lookup [[0, 65535], [7, 0]] (- 1) 0 = Inr 7"
  by (simp add: dist_lookup_def np_getitem_def)

subsection \<open>What the scorer computes, stated over sets\<close>

text \<open>
  The specification's reading of the scorer: the gene lists are sets (duplicates do not
  count), genes without an index are dropped, every remaining combination is looked up,
  sentinel cells are discarded and the rest is averaged. \<open>gene_set\<close> reads a gene set
  from one of the two external maps; a missing key is the empty set.
\<close>

definition gene_set :: "(string \<rightharpoonup> gene list) \<Rightarrow> string \<Rightarrow> gene set" where
  "gene_set m k = (case m k of None \<Rightarrow> {} | Some gs \<Rightarrow> set gs)"






lemma unat_lt_sentinel: "unat (w :: 16 word) < 65535 \<longleftrightarrow> w \<noteq> 65535"
proof -
  have "unat w < 2 ^ 16" using unsigned_less [of w, where ?'a = nat] by simp
  then have "unat w < 65535 \<longleftrightarrow> unat w \<noteq> 65535" by auto
  also have "\<dots> \<longleftrightarrow> w \<noteq> 65535"
    by (simp add: word_unat_eq_iff)
  finally show ?thesis .
qed

lemma set_index_list:
  "set (index_list gene_to_idx genes) = {i. \<exists>g\<in>set genes. gene_to_idx g = Some i}"
  by (force simp: index_list_def List.map_filter_def)

lemma index_list_empty_iff:
  "index_list gene_to_idx genes = [] \<longleftrightarrow> set genes \<inter> dom gene_to_idx = {}"
  by (auto simp: index_list_def List.map_filter_def filter_empty_conv)






subsection \<open>When the scorer returns infinity\<close>

lemma collect_row_all_sentinel:
  "\<forall>j\<in>set js. np_getitem row j = Inr 65535 \<Longrightarrow> collect_row row js 65535 acc = Inr acc"
  by (induction js arbitrary: acc) simp_all

lemma collect_dists_all_sentinel:
  "\<forall>i\<in>set is. \<exists>row. np_getitem dmat i = Inr row \<and> (\<forall>j\<in>set js. np_getitem row j = Inr 65535) \<Longrightarrow>
   collect_dists dmat is js 65535 acc = Inr acc"
  by (induction "is" arbitrary: acc) (auto simp: collect_row_all_sentinel)

lemma collect_row_Nil:
  "collect_row row js 65535 acc = Inr [] \<Longrightarrow>
   acc = [] \<and> (\<forall>j\<in>set js. np_getitem row j = Inr 65535)"
proof (induction js arbitrary: acc)
  case Nil
  then show ?case by simp
next
  case (Cons j js)
  then show ?case
    by (auto simp: unat_lt_sentinel split: sum.splits if_splits)
qed

lemma collect_row_acc:
  "collect_row row js mv acc = Inr ds \<Longrightarrow> acc \<noteq> [] \<Longrightarrow> ds \<noteq> []"
  by (induction js arbitrary: acc) (auto split: sum.splits if_splits)

lemma collect_dists_Nil:
  "collect_dists dmat is js 65535 acc = Inr [] \<Longrightarrow>
   acc = [] \<and> (\<forall>i\<in>set is. \<exists>row. np_getitem dmat i = Inr row \<and> (\<forall>j\<in>set js. np_getitem row j = Inr 65535))"
proof (induction "is" arbitrary: acc)
  case Nil
  then show ?case by simp
next
  case (Cons i "is")
  from Cons.prems obtain row ds where
    row: "np_getitem dmat i = Inr row" and
    inner: "collect_row row js 65535 acc = Inr ds" and
    rest: "collect_dists dmat is js 65535 ds = Inr []"
    by (auto split: sum.splits)
  from Cons.IH [OF rest] have ds: "ds = []"
    and all: "\<forall>i\<in>set is. \<exists>row. np_getitem dmat i = Inr row \<and> (\<forall>j\<in>set js. np_getitem row j = Inr 65535)"
    by simp_all
  from inner ds collect_row_Nil have "acc = [] \<and> (\<forall>j\<in>set js. np_getitem row j = Inr 65535)"
    by blast
  with row all show ?case by auto
qed

lemma collect_dists_no_valid_iff:
  assumes "js \<noteq> []"
  shows "collect_dists dmat is js 65535 [] = Inr [] \<longleftrightarrow>
         (\<forall>i\<in>set is. \<forall>j\<in>set js. dist_lookup dmat i j = Inr 65535)"
proof
  assume "collect_dists dmat is js 65535 [] = Inr []"
  from collect_dists_Nil [OF this]
  show "\<forall>i\<in>set is. \<forall>j\<in>set js. dist_lookup dmat i j = Inr 65535"
    by (auto simp: dist_lookup_def)
next
  assume all: "\<forall>i\<in>set is. \<forall>j\<in>set js. dist_lookup dmat i j = Inr 65535"
  from assms obtain j0 where j0: "j0 \<in> set js" by (cases js) auto
  have "\<forall>i\<in>set is. \<exists>row. np_getitem dmat i = Inr row \<and> (\<forall>j\<in>set js. np_getitem row j = Inr 65535)"
  proof
    fix i assume i: "i \<in> set is"
    with all j0 have "dist_lookup dmat i j0 = Inr 65535" by blast
    then obtain row where row: "np_getitem dmat i = Inr row"
      by (auto simp: dist_lookup_def split: sum.splits)
    with all i have "\<forall>j\<in>set js. np_getitem row j = Inr 65535"
      by (auto simp: dist_lookup_def)
    with row show "\<exists>row. np_getitem dmat i = Inr row \<and> (\<forall>j\<in>set js. np_getitem row j = Inr 65535)"
      by blast
  qed
  then show "collect_dists dmat is js 65535 [] = Inr []"
    by (rule collect_dists_all_sentinel)
qed

lemma mean_distance_for_pair_inf_iff:
  "mean_distance_for_pair drug_id disease_id drug_to_genes disease_to_genes gene_to_idx dmat 65535 = Inr PosInf
   \<longleftrightarrow>
     gene_set drug_to_genes drug_id \<inter> dom gene_to_idx = {}
   \<or> gene_set disease_to_genes disease_id \<inter> dom gene_to_idx = {}
   \<or> (\<forall>g \<in> gene_set drug_to_genes drug_id \<inter> dom gene_to_idx.
       \<forall>h \<in> gene_set disease_to_genes disease_id \<inter> dom gene_to_idx.
         dist_lookup dmat (the (gene_to_idx g)) (the (gene_to_idx h)) = Inr 65535)"
proof (cases "drug_to_genes drug_id")
  case None
  then show ?thesis by (simp add: mean_distance_for_pair_def gene_set_def)
next
  case d: (Some genes_d)
  show ?thesis
  proof (cases "disease_to_genes disease_id")
    case None
    then show ?thesis by (simp add: mean_distance_for_pair_def gene_set_def d)
  next
    case s: (Some genes_s)
    let ?id = "index_list gene_to_idx genes_d" and ?is = "index_list gene_to_idx genes_s"
    show ?thesis
    proof (cases "?id = [] \<or> ?is = []")
      case True
      then show ?thesis
        by (auto simp: mean_distance_for_pair_def gene_set_def d s index_list_empty_iff Let_def)
    next
      case False
      then have ne: "genes_d \<noteq> []" "genes_s \<noteq> []" "?id \<noteq> []" "?is \<noteq> []"
        by (auto simp: index_list_def List.map_filter_def)
      have "mean_distance_for_pair drug_id disease_id drug_to_genes disease_to_genes gene_to_idx dmat 65535 = Inr PosInf
            \<longleftrightarrow> collect_dists dmat ?id ?is 65535 [] = Inr []"
        using ne by (auto simp: mean_distance_for_pair_def d s Let_def split: sum.splits)
      also have "\<dots> \<longleftrightarrow> (\<forall>i\<in>set ?id. \<forall>j\<in>set ?is. dist_lookup dmat i j = Inr 65535)"
        using ne by (simp add: collect_dists_no_valid_iff)
      also have "\<dots> \<longleftrightarrow> (\<forall>g \<in> set genes_d \<inter> dom gene_to_idx. \<forall>h \<in> set genes_s \<inter> dom gene_to_idx.
                   dist_lookup dmat (the (gene_to_idx g)) (the (gene_to_idx h)) = Inr 65535)"
      proof -
        have "(\<forall>i\<in>set ?id. \<forall>j\<in>set ?is. dist_lookup dmat i j = Inr 65535) \<longleftrightarrow>
              (\<forall>g\<in>set genes_d. \<forall>i. gene_to_idx g = Some i \<longrightarrow>
                 (\<forall>h\<in>set genes_s. \<forall>j. gene_to_idx h = Some j \<longrightarrow> dist_lookup dmat i j = Inr 65535))"
          unfolding set_index_list by blast
        also have "\<dots> \<longleftrightarrow> (\<forall>g \<in> set genes_d \<inter> dom gene_to_idx. \<forall>h \<in> set genes_s \<inter> dom gene_to_idx.
                   dist_lookup dmat (the (gene_to_idx g)) (the (gene_to_idx h)) = Inr 65535)"
          by (simp add: dom_def Ball_def) (metis option.sel)
        finally show ?thesis .
      qed
      finally show ?thesis
        using False by (auto simp: gene_set_def d s index_list_empty_iff)
    qed
  qed
qed

lemma mean_distance_for_pair_nonneg:
  "mean_distance_for_pair drug_id disease_id drug_to_genes disease_to_genes gene_to_idx dmat mv = Inr (Finite x)
   \<Longrightarrow> 0 \<le> x"
  by (auto simp: mean_distance_for_pair_def Let_def split: option.splits if_splits sum.splits)

section \<open>Interaction graph (networkx \<open>Graph\<close>, as src/ddh/graphs.py and the scripts use it)\<close>

text \<open>
  A networkx \<open>Graph\<close> keeps \<open>_adj\<close>, a dict from node to a dict from neighbour to the
  edge's attribute dict; both dicts keep insertion order. They are association lists here
  (\<open>AList.update\<close> replaces in place or appends, as a dict assignment does). The only
  attribute ever set is \<open>weight\<close>, so the attribute dict is the value \<open>'w\<close>.
  \<open>add_edge u v\<close> adds both nodes when missing and stores the same data under
  \<open>_adj[u][v]\<close> and \<open>_adj[v][u]\<close>; data given again replaces the old.
\<close>

type_synonym 'w adjacency = "(gene \<times> (gene \<times> 'w) list) list"

definition add_node :: "gene \<Rightarrow> 'w adjacency \<Rightarrow> 'w adjacency" where
  "add_node u adj = (if u \<in> fst ` set adj then adj else adj @ [(u, [])])"

definition add_edge :: "gene \<Rightarrow> gene \<Rightarrow> 'w \<Rightarrow> 'w adjacency \<Rightarrow> 'w adjacency" where
  "add_edge u v dd adj =
     AList.map_entry v (AList.update u dd)
       (AList.map_entry u (AList.update v dd) (add_node v (add_node u adj)))"

text \<open>\<open>G.nodes\<close>, \<open>G._adj[v]\<close> (its keys), and \<open>G[u][v]\<close>.\<close>

definition nodes :: "'w adjacency \<Rightarrow> gene list" where
  "nodes adj = map fst adj"

definition nbr_keys :: "'w adjacency \<Rightarrow> gene \<Rightarrow> gene list" where
  "nbr_keys adj v = (case map_of adj v of None \<Rightarrow> [] | Some nbrs \<Rightarrow> map fst nbrs)"

definition edge_data :: "'w adjacency \<Rightarrow> gene \<Rightarrow> gene \<Rightarrow> 'w option" where
  "edge_data adj u v = (case map_of adj u of None \<Rightarrow> None | Some nbrs \<Rightarrow> map_of nbrs v)"

record GeneGeneInteraction =
  gene1_id :: gene
  gene2_id :: gene
  weight :: "real option"
  source :: string

text \<open>\<open>build_ppi_graph\<close> of src/ddh/graphs.py: a missing weight counts as \<open>1.0\<close>.\<close>

definition build_ppi_graph :: "GeneGeneInteraction list \<Rightarrow> real adjacency" where
  "build_ppi_graph interactions =
     foldl (\<lambda>G inter.
              let w = (case weight inter of Some x \<Rightarrow> x | None \<Rightarrow> 1)
              in add_edge (gene1_id inter) (gene2_id inter) w G)
           [] interactions"

text \<open>
  \<open>G.number_of_edges()\<close>: half the sum of the degrees, a self-loop counting twice.
\<close>

definition number_of_edges :: "'w adjacency \<Rightarrow> nat" where
  "number_of_edges adj =
     (\<Sum>(n, nbrs)\<leftarrow>adj. length nbrs + (if n \<in> fst ` set nbrs then 1 else 0)) div 2"

section \<open>Breadth-first search (networkx \<open>single_source_shortest_path_length\<close>)\<close>

text \<open>
  The level-synchronous search of networkx: \<open>seen\<close> starts as the source, each round
  visits the neighbours of the current level in order, appends the unseen ones to the next
  level and yields them with the level number; the loop runs while the next level is not
  empty and \<open>cutoff > level\<close> (\<open>cutoff = None\<close> is infinity). Recent versions also
  stop as soon as every node has been seen, which changes no yielded pair and is left out.
  \<open>visit\<close> is the two inner loops over one level.
\<close>

fun visit :: "gene list \<Rightarrow> gene set \<times> gene list \<Rightarrow> gene set \<times> gene list" where
  "visit [] (seen, nextlevel) = (seen, nextlevel)"
| "visit (w # ws) (seen, nextlevel) =
     (if w \<in> seen then visit ws (seen, nextlevel)
      else visit ws (insert w seen, nextlevel @ [w]))"

definition expand :: "'w adjacency \<Rightarrow> gene list \<Rightarrow> gene set \<Rightarrow> gene set \<times> gene list" where
  "expand adj thislevel seen = visit (concat (map (nbr_keys adj) thislevel)) (seen, [])"

definition cutoff_gt :: "int option \<Rightarrow> nat \<Rightarrow> bool" where
  "cutoff_gt cutoff level = (case cutoff of None \<Rightarrow> True | Some c \<Rightarrow> c > int level)"

text \<open>The nodes a graph mentions bound the search: the termination measure.\<close>

definition mentioned :: "'w adjacency \<Rightarrow> gene set" where
  "mentioned adj = fst ` set adj \<union> (\<Union>(n, nbrs)\<in>set adj. fst ` set nbrs)"

lemma visit_seen: "fst (visit ws (seen, nl)) = seen \<union> set ws"
  by (induction ws arbitrary: seen nl) auto

lemma visit_next: "set (snd (visit ws (seen, nl))) = set nl \<union> (set ws - seen)"
  by (induction ws arbitrary: seen nl) auto

lemma visit_distinct:
  "distinct nl \<Longrightarrow> set nl \<subseteq> seen \<Longrightarrow> distinct (snd (visit ws (seen, nl)))"
proof (induction ws arbitrary: seen nl)
  case Nil
  then show ?case by simp
next
  case (Cons w ws)
  show ?case
  proof (cases "w \<in> seen")
    case True
    with Cons show ?thesis by simp
  next
    case False
    with Cons.prems have "distinct (nl @ [w])" "set (nl @ [w]) \<subseteq> insert w seen"
      by auto
    from Cons.IH [OF this] False show ?thesis by simp
  qed
qed

lemma nbr_keys_mentioned: "set (nbr_keys adj v) \<subseteq> mentioned adj"
proof
  fix w assume "w \<in> set (nbr_keys adj v)"
  then obtain nbrs where "map_of adj v = Some nbrs" "w \<in> fst ` set nbrs"
    by (cases "map_of adj v") (auto simp: nbr_keys_def)
  then have "(v, nbrs) \<in> set adj" "w \<in> fst ` set nbrs"
    by (auto dest: map_of_SomeD)
  then show "w \<in> mentioned adj"
    unfolding mentioned_def by blast
qed

lemma finite_mentioned: "finite (mentioned adj)"
  by (auto simp: mentioned_def)

function bfs_loop ::
  "'w adjacency \<Rightarrow> gene set \<Rightarrow> gene list \<Rightarrow> nat \<Rightarrow> int option \<Rightarrow> (gene \<times> nat) list" where
  "bfs_loop adj seen nextlevel level cutoff =
     (if nextlevel \<noteq> [] \<and> cutoff_gt cutoff level then
        map (\<lambda>w. (w, level + 1)) (snd (expand adj nextlevel seen))
        @ bfs_loop adj (fst (expand adj nextlevel seen)) (snd (expand adj nextlevel seen))
            (level + 1) cutoff
      else [])"
  by pat_completeness auto
termination
proof (relation "measure (\<lambda>(adj, seen, nextlevel, level, cutoff).
          card (mentioned adj - seen) + (if nextlevel = [] then 0 else 1))")
  show "wf (measure (\<lambda>(adj :: 'w adjacency, seen, nextlevel :: gene list, level :: nat, cutoff :: int option).
          card (mentioned adj - seen) + (if nextlevel = [] then 0 else 1)))"
    by simp
next
  fix adj :: "'w adjacency" and seen and nextlevel :: "gene list" and level :: nat
    and cutoff :: "int option"
  assume "nextlevel \<noteq> [] \<and> cutoff_gt cutoff level"
  then have ne: "nextlevel \<noteq> []" by simp
  let ?ws = "concat (map (nbr_keys adj) nextlevel)"
  have seen': "fst (expand adj nextlevel seen) = seen \<union> set ?ws"
    by (simp add: expand_def visit_seen)
  have nxt: "set (snd (expand adj nextlevel seen)) = set ?ws - seen"
    by (simp add: expand_def visit_next)
  have sub: "set ?ws \<subseteq> mentioned adj"
    using nbr_keys_mentioned by auto
  show "((adj, fst (expand adj nextlevel seen), snd (expand adj nextlevel seen), level + 1, cutoff),
         (adj, seen, nextlevel, level, cutoff))
        \<in> measure (\<lambda>(adj, seen, nextlevel, level, cutoff).
             card (mentioned adj - seen) + (if nextlevel = [] then 0 else 1))"
  proof (cases "snd (expand adj nextlevel seen) = []")
    case True
    with nxt have "set ?ws \<subseteq> seen" by auto
    then have "seen \<union> set ?ws = seen" by auto
    with True ne seen' show ?thesis by simp
  next
    case False
    then obtain w where w: "w \<in> set ?ws" "w \<notin> seen"
      using nxt by (metis Diff_iff all_not_in_conv set_empty)
    with sub have "mentioned adj - (seen \<union> set ?ws) \<subset> mentioned adj - seen"
      by auto
    then have "card (mentioned adj - (seen \<union> set ?ws)) < card (mentioned adj - seen)"
      by (intro psubset_card_mono) (simp_all add: finite_mentioned)
    with False ne seen' show ?thesis by simp
  qed
qed

declare bfs_loop.simps [simp del]

definition single_source_shortest_path_length ::
  "'w adjacency \<Rightarrow> gene \<Rightarrow> int option \<Rightarrow> error + (gene \<times> nat) list" where
  "single_source_shortest_path_length adj source_node cutoff =
     (if source_node \<notin> set (nodes adj) then Inl NodeNotFound
      else Inr ((source_node, 0) # bfs_loop adj {source_node} [source_node] 0 cutoff))"

subsection \<open>Graph facts\<close>

lemma map_of_add_node:
  "map_of (add_node u adj) x =
     (if x = u \<and> u \<notin> fst ` set adj then Some [] else map_of adj x)"
proof (cases "u \<in> fst ` set adj")
  case True
  then show ?thesis by (simp add: add_node_def)
next
  case False
  then have "map_of adj u = None" by (simp add: map_of_eq_None_iff)
  with False show ?thesis
    by (cases "map_of adj x") (auto simp: add_node_def map_add_def)
qed

lemma keys_add_node: "fst ` set (add_node u adj) = insert u (fst ` set adj)"
  by (auto simp: add_node_def)

lemma edge_data_add_node: "edge_data (add_node u adj) x y = edge_data adj x y"
proof (cases "u \<in> fst ` set adj")
  case True
  then show ?thesis by (simp add: add_node_def)
next
  case False
  then have "map_of adj u = None" by (simp add: map_of_eq_None_iff)
  then show ?thesis
    by (simp add: edge_data_def map_of_add_node)
qed

lemma edge_data_map_entry:
  assumes "u \<in> fst ` set adj"
  shows "edge_data (AList.map_entry u (AList.update v dd) adj) x y =
           (if x = u \<and> y = v then Some dd else edge_data adj x y)"
proof -
  from assms obtain n where "map_of adj u = Some n"
    by (metis map_of_eq_None_iff not_Some_eq)
  then show ?thesis
    by (simp add: edge_data_def AList.map_of_map_entry AList.update_conv')
qed

lemma keys_add_edge: "fst ` set (add_edge u v dd adj) = {u, v} \<union> fst ` set adj"
  by (auto simp: add_edge_def AList.dom_map_entry keys_add_node)

lemma if_either_orientation:
  "(if x = v \<and> y = u then Some dd else if x = u \<and> y = v then Some dd else e) =
   (if (x = u \<and> y = v) \<or> (x = v \<and> y = u) then Some dd else e)"
  by (cases "x = u"; cases "y = v"; cases "x = v"; cases "y = u"; simp)

lemma edge_data_add_edge:
  "edge_data (add_edge u v dd adj) x y =
     (if (x = u \<and> y = v) \<or> (x = v \<and> y = u) then Some dd else edge_data adj x y)"
proof -
  let ?a = "add_node v (add_node u adj)"
  have ku: "u \<in> fst ` set ?a" and kv: "v \<in> fst ` set (AList.map_entry u (AList.update v dd) ?a)"
    by (simp_all add: keys_add_node AList.dom_map_entry)
  have 1: "edge_data (add_edge u v dd adj) x y =
           (if x = v \<and> y = u then Some dd
            else edge_data (AList.map_entry u (AList.update v dd) ?a) x y)"
    unfolding add_edge_def by (rule edge_data_map_entry [OF kv])
  have 2: "edge_data (AList.map_entry u (AList.update v dd) ?a) x y =
           (if x = u \<and> y = v then Some dd else edge_data ?a x y)"
    by (rule edge_data_map_entry [OF ku])
  have 3: "edge_data ?a x y = edge_data adj x y"
    by (simp only: edge_data_add_node)
  show ?thesis
    unfolding 1 2 3 by (rule if_either_orientation)
qed

lemma distinct_add_node: "distinct (map fst adj) \<Longrightarrow> distinct (map fst (add_node u adj))"
  by (auto simp: add_node_def)

lemma distinct_add_edge: "distinct (map fst adj) \<Longrightarrow> distinct (map fst (add_edge u v dd adj))"
  by (simp add: add_edge_def AList.distinct_map_entry distinct_add_node)

lemma nbr_keys_edge_data: "y \<in> set (nbr_keys adj x) \<longleftrightarrow> edge_data adj x y \<noteq> None"
proof (cases "map_of adj x")
  case None
  then show ?thesis by (simp add: nbr_keys_def edge_data_def)
next
  case (Some n)
  then show ?thesis
    by (simp add: nbr_keys_def edge_data_def map_of_eq_None_iff)
qed


subsection \<open>What breadth-first search computes\<close>

text \<open>
  \<open>lvl adj a k\<close> is the set of nodes at distance exactly \<open>k\<close> from \<open>a\<close>: reachable by
  \<open>k\<close> edges and by no fewer. The search yields exactly the pairs \<open>(w, k)\<close> with
  \<open>w \<in> lvl adj a k\<close> and \<open>k\<close> within the cutoff.
\<close>

definition edge_rel :: "'w adjacency \<Rightarrow> (gene \<times> gene) set" where
  "edge_rel adj = {(u, v). v \<in> set (nbr_keys adj u)}"

definition lvl :: "'w adjacency \<Rightarrow> gene \<Rightarrow> nat \<Rightarrow> gene set" where
  "lvl adj a k = {b. (a, b) \<in> edge_rel adj ^^ k \<and> (\<forall>m<k. (a, b) \<notin> edge_rel adj ^^ m)}"

definition reach_le :: "'w adjacency \<Rightarrow> gene \<Rightarrow> nat \<Rightarrow> gene set" where
  "reach_le adj a k = {b. \<exists>m\<le>k. (a, b) \<in> edge_rel adj ^^ m}"

definition within_cutoff :: "int option \<Rightarrow> nat \<Rightarrow> bool" where
  "within_cutoff cutoff k = (case cutoff of None \<Rightarrow> True | Some c \<Rightarrow> int k \<le> c)"

lemma lvl_0: "lvl adj a 0 = {a}"
  by (auto simp: lvl_def)

lemma reach_le_0: "reach_le adj a 0 = {a}"
  by (auto simp: reach_le_def)

lemma lvl_unique: "b \<in> lvl adj a k \<Longrightarrow> b \<in> lvl adj a j \<Longrightarrow> k = j"
  unfolding lvl_def by (metis (mono_tags, lifting) linorder_neqE_nat mem_Collect_eq)

lemma lvl_subset_reach_le: "k \<le> n \<Longrightarrow> lvl adj a k \<subseteq> reach_le adj a n"
  by (auto simp: lvl_def reach_le_def)

lemma reach_le_Suc: "reach_le adj a (Suc k) = reach_le adj a k \<union> lvl adj a (Suc k)"
proof
  show "reach_le adj a (Suc k) \<subseteq> reach_le adj a k \<union> lvl adj a (Suc k)"
  proof
    fix b assume "b \<in> reach_le adj a (Suc k)"
    then obtain m where m: "m \<le> Suc k" "(a, b) \<in> edge_rel adj ^^ m"
      by (auto simp: reach_le_def)
    show "b \<in> reach_le adj a k \<union> lvl adj a (Suc k)"
    proof (cases "\<exists>m\<le>k. (a, b) \<in> edge_rel adj ^^ m")
      case True
      then show ?thesis by (simp add: reach_le_def)
    next
      case False
      with m have "m = Suc k" by (metis le_SucE)
      with m False have "b \<in> lvl adj a (Suc k)"
        by (auto simp: lvl_def less_Suc_eq_le)
      then show ?thesis by simp
    qed
  qed
next
  show "reach_le adj a k \<union> lvl adj a (Suc k) \<subseteq> reach_le adj a (Suc k)"
  proof -
    have "reach_le adj a k \<subseteq> reach_le adj a (Suc k)"
      unfolding reach_le_def using le_SucI by blast
    moreover have "lvl adj a (Suc k) \<subseteq> reach_le adj a (Suc k)"
      by (rule lvl_subset_reach_le) simp
    ultimately show ?thesis by blast
  qed
qed

lemma lvl_Suc: "lvl adj a (Suc k) = edge_rel adj `` lvl adj a k - reach_le adj a k"
proof (intro set_eqI iffI)
  fix b assume b: "b \<in> lvl adj a (Suc k)"
  then have path: "(a, b) \<in> edge_rel adj ^^ Suc k"
    and least: "\<And>m. m < Suc k \<Longrightarrow> (a, b) \<notin> edge_rel adj ^^ m"
    by (auto simp: lvl_def)
  from path obtain c where c: "(a, c) \<in> edge_rel adj ^^ k" "(c, b) \<in> edge_rel adj"
    by auto
  have "c \<in> lvl adj a k"
  proof -
    have "(a, c) \<notin> edge_rel adj ^^ m" if "m < k" for m
    proof
      assume "(a, c) \<in> edge_rel adj ^^ m"
      with c(2) have "(a, b) \<in> edge_rel adj ^^ Suc m" by auto
      moreover from that have "Suc m < Suc k" by simp
      ultimately show False using least by blast
    qed
    with c(1) show ?thesis by (simp add: lvl_def)
  qed
  moreover have "b \<notin> reach_le adj a k"
    using least by (auto simp: reach_le_def less_Suc_eq_le)
  ultimately show "b \<in> edge_rel adj `` lvl adj a k - reach_le adj a k"
    using c(2) by blast
next
  fix b assume "b \<in> edge_rel adj `` lvl adj a k - reach_le adj a k"
  then obtain c where c: "c \<in> lvl adj a k" "(c, b) \<in> edge_rel adj"
    and nb: "b \<notin> reach_le adj a k"
    by blast
  from c have "(a, b) \<in> edge_rel adj ^^ Suc k"
    by (auto simp: lvl_def)
  moreover from nb have "\<forall>m<Suc k. (a, b) \<notin> edge_rel adj ^^ m"
    by (auto simp: reach_le_def less_Suc_eq_le)
  ultimately show "b \<in> lvl adj a (Suc k)"
    by (simp add: lvl_def)
qed

lemma lvl_empty_upward: "lvl adj a k = {} \<Longrightarrow> k \<le> j \<Longrightarrow> lvl adj a j = {}"
proof (induction j)
  case 0
  then show ?case by simp
next
  case (Suc j)
  show ?case
  proof (cases "k = Suc j")
    case True
    with Suc.prems show ?thesis by simp
  next
    case False
    with Suc have "lvl adj a j = {}" by simp
    then show ?thesis by (simp add: lvl_Suc)
  qed
qed

lemma within_cutoff_mono: "within_cutoff cutoff k \<Longrightarrow> j \<le> k \<Longrightarrow> within_cutoff cutoff j"
  by (auto simp: within_cutoff_def split: option.splits)

lemma cutoff_gt_within: "cutoff_gt cutoff level \<longleftrightarrow> within_cutoff cutoff (Suc level)"
  by (auto simp: cutoff_gt_def within_cutoff_def split: option.splits)

lemma set_concat_nbr_keys:
  "set (concat (map (nbr_keys adj) vs)) = edge_rel adj `` set vs"
  by (auto simp: edge_rel_def)

lemma expand_level:
  assumes "seen = reach_le adj a level" and "set thislevel = lvl adj a level"
  shows "fst (expand adj thislevel seen) = reach_le adj a (Suc level)"
    and "set (snd (expand adj thislevel seen)) = lvl adj a (Suc level)"
proof -
  have ws: "set (concat (map (nbr_keys adj) thislevel)) = edge_rel adj `` lvl adj a level"
    unfolding set_concat_nbr_keys assms ..
  have nxt: "set (snd (expand adj thislevel seen)) = edge_rel adj `` lvl adj a level - reach_le adj a level"
    unfolding expand_def visit_next ws assms by simp
  then show 2: "set (snd (expand adj thislevel seen)) = lvl adj a (Suc level)"
    by (simp add: lvl_Suc)
  have "fst (expand adj thislevel seen) = reach_le adj a level \<union> edge_rel adj `` lvl adj a level"
    unfolding expand_def visit_seen ws assms ..
  also have "\<dots> = reach_le adj a level \<union> (edge_rel adj `` lvl adj a level - reach_le adj a level)"
    by blast
  also have "\<dots> = reach_le adj a (Suc level)"
    by (simp add: reach_le_Suc lvl_Suc)
  finally show "fst (expand adj thislevel seen) = reach_le adj a (Suc level)" .
qed

lemma bfs_loop_correct:
  "seen = reach_le adj a level \<Longrightarrow> set nextlevel = lvl adj a level \<Longrightarrow>
   set (bfs_loop adj seen nextlevel level cutoff) =
     {(w, k). level < k \<and> within_cutoff cutoff k \<and> w \<in> lvl adj a k}"
proof (induction adj seen nextlevel level cutoff rule: bfs_loop.induct)
  case (1 adj seen nextlevel level cutoff)
  show ?case
  proof (cases "nextlevel \<noteq> [] \<and> cutoff_gt cutoff level")
    case False
    have "{(w, k). level < k \<and> within_cutoff cutoff k \<and> w \<in> lvl adj a k} = {}"
    proof (cases "nextlevel = []")
      case True
      with "1.prems" have "lvl adj a level = {}" by simp
      then have "\<And>k. level < k \<Longrightarrow> lvl adj a k = {}"
        using lvl_empty_upward [of adj a level] by simp
      then show ?thesis by auto
    next
      case ne: False
      with False have "\<not> within_cutoff cutoff (Suc level)"
        by (simp add: cutoff_gt_within)
      then have "\<And>k. level < k \<Longrightarrow> \<not> within_cutoff cutoff k"
        using within_cutoff_mono [of cutoff _ "Suc level"] by (meson Suc_leI)
      then show ?thesis by auto
    qed
    with False show ?thesis
      by (subst bfs_loop.simps) auto
  next
    case True
    let ?e = "expand adj nextlevel seen"
    from expand_level [OF "1.prems"]
    have seen': "fst ?e = reach_le adj a (Suc level)" and nxt: "set (snd ?e) = lvl adj a (Suc level)"
      by simp_all
    have rec: "set (bfs_loop adj (fst ?e) (snd ?e) (Suc level) cutoff) =
               {(w, k). Suc level < k \<and> within_cutoff cutoff k \<and> w \<in> lvl adj a k}"
      using "1.IH" [OF True] seen' nxt by simp
    from True have wc: "within_cutoff cutoff (Suc level)"
      by (simp add: cutoff_gt_within)
    have "set (bfs_loop adj seen nextlevel level cutoff) =
          (\<lambda>w. (w, Suc level)) ` lvl adj a (Suc level)
          \<union> {(w, k). Suc level < k \<and> within_cutoff cutoff k \<and> w \<in> lvl adj a k}"
      using True by (subst bfs_loop.simps) (simp add: rec nxt)
    also have "\<dots> = {(w, k). level < k \<and> within_cutoff cutoff k \<and> w \<in> lvl adj a k}"
    proof (intro set_eqI iffI)
      fix p assume "p \<in> (\<lambda>w. (w, Suc level)) ` lvl adj a (Suc level)
          \<union> {(w, k). Suc level < k \<and> within_cutoff cutoff k \<and> w \<in> lvl adj a k}"
      then show "p \<in> {(w, k). level < k \<and> within_cutoff cutoff k \<and> w \<in> lvl adj a k}"
        using wc by auto
    next
      fix p assume "p \<in> {(w, k). level < k \<and> within_cutoff cutoff k \<and> w \<in> lvl adj a k}"
      then obtain w k where p: "p = (w, k)" "level < k" "within_cutoff cutoff k" "w \<in> lvl adj a k"
        by auto
      show "p \<in> (\<lambda>w. (w, Suc level)) ` lvl adj a (Suc level)
          \<union> {(w, k). Suc level < k \<and> within_cutoff cutoff k \<and> w \<in> lvl adj a k}"
      proof (cases "k = Suc level")
        case True
        with p show ?thesis by auto
      next
        case False
        with p have "Suc level < k" by simp
        with p show ?thesis by auto
      qed
    qed
    finally show ?thesis .
  qed
qed

lemma single_source_correct:
  assumes "a \<in> set (nodes adj)"
  shows "\<exists>lengths. single_source_shortest_path_length adj a cutoff = Inr lengths \<and>
           set lengths = {(w, k). (k = 0 \<or> within_cutoff cutoff k) \<and> w \<in> lvl adj a k}"
proof -
  have "set (bfs_loop adj {a} [a] 0 cutoff) =
        {(w, k). 0 < k \<and> within_cutoff cutoff k \<and> w \<in> lvl adj a k}"
    by (rule bfs_loop_correct) (simp_all add: reach_le_0 lvl_0)
  then have "set ((a, 0) # bfs_loop adj {a} [a] 0 cutoff) =
        {(w, k). (k = 0 \<or> within_cutoff cutoff k) \<and> w \<in> lvl adj a k}"
    using lvl_0 [of adj a] by auto
  with assms show ?thesis
    by (simp add: single_source_shortest_path_length_def)
qed

lemma relpow_sym:
  assumes "sym R"
  shows "(a, b) \<in> R ^^ n \<Longrightarrow> (b, a) \<in> R ^^ n"
proof (induction n arbitrary: b)
  case 0
  then show ?case by simp
next
  case (Suc n)
  then obtain c where c: "(a, c) \<in> R ^^ n" "(c, b) \<in> R" by auto
  from Suc.IH [OF c(1)] have "(c, a) \<in> R ^^ n" .
  moreover from c(2) assms have "(b, c) \<in> R" by (simp add: symD)
  ultimately show ?case by (rule relpow_Suc_I2 [rotated])
qed

lemma lvl_sym:
  assumes "sym (edge_rel adj)"
  shows "b \<in> lvl adj a k \<longleftrightarrow> a \<in> lvl adj b k"
  using relpow_sym [OF assms] unfolding lvl_def by blast

section \<open>Distance precomputation (scripts/precompute\_gene\_distance\_matrix.py)\<close>

text \<open>
  The inputs are the tables as read: the rows \<open>(gene1_id, gene2_id)\<close> of the PPI file and
  the \<open>gene_id\<close> columns of the two association files, as stripped strings.
  \<open>build_gene_universe\<close> returns a Python set; \<open>main\<close> sorts it.
  The script's own \<open>build_ppi_graph\<close> uses \<open>add_edges_from\<close> on the pairs, with no
  attribute (\<open>unit\<close>).
\<close>

definition build_gene_universe :: "(gene \<times> gene) list \<Rightarrow> gene list \<Rightarrow> gene list \<Rightarrow> gene set" where
  "build_gene_universe ppi dt gd =
     (set (map fst ppi) \<union> set (map snd ppi)) \<union> set dt \<union> set gd"

definition precompute_build_ppi_graph :: "(gene \<times> gene) list \<Rightarrow> unit adjacency" where
  "precompute_build_ppi_graph ppi = foldl (\<lambda>G (u, v). add_edge u v () G) [] ppi"

text \<open>A dict built from pairs in order (\<open>{g: i for i, g in enumerate(...)}\<close>, \<open>dict(zip(...))\<close>).\<close>

definition dict_of_pairs :: "('k \<times> 'v) list \<Rightarrow> ('k \<rightharpoonup> 'v)" where
  "dict_of_pairs kvs = foldl (\<lambda>m (k, v). m(k \<mapsto> v)) Map.empty kvs"

text \<open>
  \<open>np.memmap(path, dtype=np.uint16, mode="w+", shape=(N, N))\<close> creates the file
  zero-filled. For \<open>N = 0\<close> the file is created too, and whether the call then raises
  (\<open>ValueError\<close>: an empty file cannot be mapped) or returns an empty array depends on the
  numpy version: \<open>empty_ok\<close> says which. An exception carries the matrix file's content
  at that moment.
\<close>

definition np_memmap_create :: "bool \<Rightarrow> nat \<Rightarrow> (error \<times> dist_matrix) + dist_matrix" where
  "np_memmap_create empty_ok N =
     (if N = 0 \<and> \<not> empty_ok then Inl (ValueError, [])
      else Inr (replicate N (replicate N 0)))"

text \<open>\<open>dist[:] = max_uint16\<close>, \<open>dist[i, j] = v\<close> and the loop \<open>for i in range(N): dist[i, i] = 0\<close>.\<close>

definition fill_all :: "16 word \<Rightarrow> dist_matrix \<Rightarrow> dist_matrix" where
  "fill_all v dmat = map (map (\<lambda>_. v)) dmat"

definition dist_setitem ::
  "dist_matrix \<Rightarrow> nat \<Rightarrow> nat \<Rightarrow> 16 word \<Rightarrow> (error \<times> dist_matrix) + dist_matrix" where
  "dist_setitem dmat i j v =
     (if i < length dmat \<and> j < length (dmat ! i)
      then Inr (dmat[i := (dmat ! i)[j := v]])
      else Inl (IndexError, dmat))"

fun zero_diagonal :: "nat list \<Rightarrow> dist_matrix \<Rightarrow> (error \<times> dist_matrix) + dist_matrix" where
  "zero_diagonal [] dmat = Inr dmat"
| "zero_diagonal (i # is) dmat =
     (case dist_setitem dmat i i 0 of
        Inl e \<Rightarrow> Inl e
      | Inr dmat' \<Rightarrow> zero_diagonal is dmat')"

text \<open>
  The loop over \<open>lengths.items()\<close> for one source with row \<open>i\<close>: a gene without an
  index is skipped, a distance above 65535 is not written.
\<close>

fun write_lengths ::
  "(gene \<rightharpoonup> nat) \<Rightarrow> nat \<Rightarrow> (gene \<times> nat) list \<Rightarrow> dist_matrix \<Rightarrow>
   (error \<times> dist_matrix) + dist_matrix" where
  "write_lengths gene_to_idx i [] dmat = Inr dmat"
| "write_lengths gene_to_idx i ((h, d) # lengths) dmat =
     (case gene_to_idx h of
        None \<Rightarrow> write_lengths gene_to_idx i lengths dmat
      | Some j \<Rightarrow>
          if d \<le> 65535 then
            (case dist_setitem dmat i j (of_nat d) of
               Inl e \<Rightarrow> Inl e
             | Inr dmat' \<Rightarrow> write_lengths gene_to_idx i lengths dmat')
          else write_lengths gene_to_idx i lengths dmat)"

text \<open>The loop over \<open>genes_in_graph\<close>.\<close>

fun bfs_from_each ::
  "'w adjacency \<Rightarrow> (gene \<rightharpoonup> nat) \<Rightarrow> int option \<Rightarrow> gene list \<Rightarrow> dist_matrix \<Rightarrow>
   (error \<times> dist_matrix) + dist_matrix" where
  "bfs_from_each G gene_to_idx cutoff [] dmat = Inr dmat"
| "bfs_from_each G gene_to_idx cutoff (g # genes_in_graph) dmat =
     (case gene_to_idx g of
        None \<Rightarrow> Inl (KeyError, dmat)
      | Some i \<Rightarrow>
          (case single_source_shortest_path_length G g cutoff of
             Inl e \<Rightarrow> Inl (e, dmat)
           | Inr lengths \<Rightarrow>
               (case write_lengths gene_to_idx i lengths dmat of
                  Inl e \<Rightarrow> Inl e
                | Inr dmat' \<Rightarrow> bfs_from_each G gene_to_idx cutoff genes_in_graph dmat')))"

text \<open>
  What a run leaves behind: the index file (its rows), the matrix file (its cells) and the
  exception that ended the run, if any. The index file is written before the graph is
  built and before the matrix is allocated.
\<close>

record outputs =
  index_file :: "(gene \<times> nat) list option"
  matrix_file :: "dist_matrix option"
  raised :: "error option"

definition main ::
  "bool \<Rightarrow> int option \<Rightarrow> (gene \<times> gene) list \<Rightarrow> gene list \<Rightarrow> gene list \<Rightarrow> outputs" where
  "main empty_ok cutoff ppi dt gd =
     (let all_genes = sorted_list_of_set (build_gene_universe ppi dt gd);
          N = length all_genes;
          gene_to_idx = dict_of_pairs (zip all_genes [0..<N]);
          df_index = zip all_genes [0..<N];
          G = precompute_build_ppi_graph ppi;
          genes_in_graph = filter (\<lambda>g. g \<in> set (nodes G)) all_genes;
          run =
            (case np_memmap_create empty_ok N of
               Inl e \<Rightarrow> Inl e
             | Inr dmat0 \<Rightarrow>
                 (case zero_diagonal [0..<N] (fill_all 65535 dmat0) of
                    Inl e \<Rightarrow> Inl e
                  | Inr dmat1 \<Rightarrow> bfs_from_each G gene_to_idx cutoff genes_in_graph dmat1))
      in case run of
           Inl (e, partial) \<Rightarrow>
             \<lparr>index_file = Some df_index, matrix_file = Some partial, raised = Some e\<rparr>
         | Inr dmat \<Rightarrow>
             \<lparr>index_file = Some df_index, matrix_file = Some dmat, raised = None\<rparr>)"

subsection \<open>Cells of the matrix under the write loops\<close>

lemma wf_matrix_nth: "wf_matrix N dmat \<Longrightarrow> a < N \<Longrightarrow> length (dmat ! a) = N"
  by (simp add: wf_matrix_def list_all_length)

lemma wf_matrix_length: "wf_matrix N dmat \<Longrightarrow> length dmat = N"
  by (simp add: wf_matrix_def)

lemma dist_setitem_ok:
  assumes "wf_matrix N dmat" "i < N" "j < N"
  shows "dist_setitem dmat i j v = Inr (dmat[i := (dmat ! i)[j := v]])"
    and "wf_matrix N (dmat[i := (dmat ! i)[j := v]])"
    and "\<And>a b. a < N \<Longrightarrow> b < N \<Longrightarrow>
           dmat[i := (dmat ! i)[j := v]] ! a ! b = (if a = i \<and> b = j then v else dmat ! a ! b)"
proof -
  from assms show "dist_setitem dmat i j v = Inr (dmat[i := (dmat ! i)[j := v]])"
    by (simp add: dist_setitem_def wf_matrix_def list_all_length)
  from assms show "wf_matrix N (dmat[i := (dmat ! i)[j := v]])"
    by (auto simp: wf_matrix_def list_all_length nth_list_update)
  fix a b assume "a < N" "b < N"
  with assms show "dmat[i := (dmat ! i)[j := v]] ! a ! b = (if a = i \<and> b = j then v else dmat ! a ! b)"
    by (auto simp: wf_matrix_def list_all_length nth_list_update)
qed

lemma zero_diagonal_cells:
  assumes "wf_matrix N dmat" "\<forall>i\<in>set is. i < N"
  shows "\<exists>dmat'. zero_diagonal is dmat = Inr dmat' \<and> wf_matrix N dmat' \<and>
           (\<forall>a<N. \<forall>b<N. dmat' ! a ! b = (if a = b \<and> a \<in> set is then 0 else dmat ! a ! b))"
  using assms
proof (induction "is" arbitrary: dmat)
  case Nil
  then show ?case by simp
next
  case (Cons i "is")
  let ?d = "dmat[i := (dmat ! i)[i := 0]]"
  from Cons.prems have i: "i < N" by simp
  note st = dist_setitem_ok [OF Cons.prems(1) i i, where v = 0]
  from Cons.prems have "\<forall>i\<in>set is. i < N" by simp
  from Cons.IH [OF st(2) this] obtain dmat' where
    d': "zero_diagonal is ?d = Inr dmat'" "wf_matrix N dmat'"
    "\<forall>a<N. \<forall>b<N. dmat' ! a ! b = (if a = b \<and> a \<in> set is then 0 else ?d ! a ! b)"
    by blast
  have "\<forall>a<N. \<forall>b<N. dmat' ! a ! b = (if a = b \<and> a \<in> set (i # is) then 0 else dmat ! a ! b)"
    using d'(3) st(3) by auto
  with d'(1,2) st(1) show ?case by simp
qed

lemma fill_all_cells:
  "wf_matrix N dmat \<Longrightarrow> wf_matrix N (fill_all v dmat)"
  "wf_matrix N dmat \<Longrightarrow> a < N \<Longrightarrow> b < N \<Longrightarrow> fill_all v dmat ! a ! b = v"
  by (auto simp: wf_matrix_def fill_all_def list_all_length)

lemma wf_matrix_replicate: "wf_matrix N (replicate N (replicate N v))"
  by (simp add: wf_matrix_def list_all_length)

definition functional_on :: "(gene \<rightharpoonup> nat) \<Rightarrow> (gene \<times> nat) list \<Rightarrow> bool" where
  "functional_on gene_to_idx lengths =
     (\<forall>h d h' d'. (h, d) \<in> set lengths \<and> (h', d') \<in> set lengths \<and>
        gene_to_idx h = gene_to_idx h' \<and> gene_to_idx h \<noteq> None \<longrightarrow> d = d')"

definition writes :: "(gene \<rightharpoonup> nat) \<Rightarrow> (gene \<times> nat) list \<Rightarrow> nat \<Rightarrow> nat \<Rightarrow> bool" where
  "writes gene_to_idx lengths b d =
     (\<exists>h. (h, d) \<in> set lengths \<and> gene_to_idx h = Some b \<and> d \<le> 65535)"

definition row_result ::
  "(gene \<rightharpoonup> nat) \<Rightarrow> (gene \<times> nat) list \<Rightarrow> nat \<Rightarrow> nat \<Rightarrow> dist_matrix \<Rightarrow> dist_matrix \<Rightarrow> bool" where
  "row_result gene_to_idx lengths i N dmat dmat' =
     (\<forall>a<N. \<forall>b<N.
        (a = i \<longrightarrow> (\<forall>d. writes gene_to_idx lengths b d \<longrightarrow> dmat' ! a ! b = of_nat d)) \<and>
        (a \<noteq> i \<or> \<not> (\<exists>d. writes gene_to_idx lengths b d) \<longrightarrow> dmat' ! a ! b = dmat ! a ! b))"

lemma functional_on_tail: "functional_on gene_to_idx (p # lengths) \<Longrightarrow> functional_on gene_to_idx lengths"
  unfolding functional_on_def by (meson list.set_intros(2))

lemma writes_Cons:
  "writes gene_to_idx ((h, d) # lengths) b d' \<longleftrightarrow>
     (d' = d \<and> gene_to_idx h = Some b \<and> d \<le> 65535) \<or> writes gene_to_idx lengths b d'"
  unfolding writes_def by auto

lemma write_lengths_cells:
  assumes "i < N" and idx: "\<forall>h j. gene_to_idx h = Some j \<longrightarrow> j < N"
  shows "wf_matrix N dmat \<Longrightarrow> functional_on gene_to_idx lengths \<Longrightarrow>
         \<exists>dmat'. write_lengths gene_to_idx i lengths dmat = Inr dmat' \<and> wf_matrix N dmat' \<and>
           row_result gene_to_idx lengths i N dmat dmat'"
proof (induction lengths arbitrary: dmat)
  case Nil
  then show ?case by (simp add: row_result_def writes_def)
next
  case (Cons p lengths)
  obtain h d where p: "p = (h, d)" by (cases p)
  have func: "functional_on gene_to_idx lengths"
    using Cons.prems(2) by (rule functional_on_tail)
  show ?case
  proof (cases "\<exists>j. gene_to_idx h = Some j \<and> d \<le> 65535")
    case False
    then have skip: "write_lengths gene_to_idx i (p # lengths) dmat = write_lengths gene_to_idx i lengths dmat"
      by (auto simp: p split: option.splits)
    from Cons.IH [OF Cons.prems(1) func] obtain dmat' where
      d': "write_lengths gene_to_idx i lengths dmat = Inr dmat'" "wf_matrix N dmat'"
      and cells: "row_result gene_to_idx lengths i N dmat dmat'"
      by blast
    from False have "\<And>b d'. writes gene_to_idx (p # lengths) b d' = writes gene_to_idx lengths b d'"
      unfolding p writes_Cons by auto
    with cells have "row_result gene_to_idx (p # lengths) i N dmat dmat'"
      by (simp add: row_result_def)
    with d' skip show ?thesis by simp
  next
    case True
    then obtain j where j: "gene_to_idx h = Some j" and d: "d \<le> 65535" by blast
    from idx j have jN: "j < N" by blast
    let ?d = "dmat[i := (dmat ! i)[j := of_nat d]]"
    note st = dist_setitem_ok [OF Cons.prems(1) assms(1) jN, where v = "of_nat d"]
    have step: "write_lengths gene_to_idx i (p # lengths) dmat = write_lengths gene_to_idx i lengths ?d"
      using j d st(1) by (simp add: p)
    from Cons.IH [OF st(2) func] obtain dmat' where
      d': "write_lengths gene_to_idx i lengths ?d = Inr dmat'" "wf_matrix N dmat'"
      and cells: "row_result gene_to_idx lengths i N ?d dmat'"
      by blast
    have w: "\<And>b d'. writes gene_to_idx (p # lengths) b d' \<longleftrightarrow>
               (d' = d \<and> b = j) \<or> writes gene_to_idx lengths b d'"
      unfolding p writes_Cons using j d by auto
    have same: "d'' = d" if "writes gene_to_idx lengths j d''" for d''
    proof -
      from that obtain h'' where "(h'', d'') \<in> set lengths" "gene_to_idx h'' = Some j"
        by (auto simp: writes_def)
      with Cons.prems(2) j show ?thesis
        unfolding functional_on_def p
        by (metis list.set_intros(1) list.set_intros(2) option.distinct(1))
    qed
    have "row_result gene_to_idx (p # lengths) i N dmat dmat'"
      unfolding row_result_def
    proof (intro allI impI conjI)
      fix a b d'
      assume ab: "a < N" "b < N" and ai: "a = i" and wr: "writes gene_to_idx (p # lengths) b d'"
      show "dmat' ! a ! b = of_nat d'"
      proof (cases "writes gene_to_idx lengths b d'")
        case True
        with cells ab ai show ?thesis by (simp add: row_result_def)
      next
        case False
        with wr w have eq: "d' = d" "b = j" by auto
        show ?thesis
        proof (cases "\<exists>d''. writes gene_to_idx lengths b d''")
          case True
          then obtain d'' where d'': "writes gene_to_idx lengths b d''" by blast
          with cells ab ai have "dmat' ! a ! b = of_nat d''" by (simp add: row_result_def)
          moreover from d'' eq same have "d'' = d" by simp
          ultimately show ?thesis using eq by simp
        next
          case False
          with cells ab have "dmat' ! a ! b = ?d ! a ! b" by (simp add: row_result_def)
          also have "\<dots> = of_nat d" using st(3) [OF ab] ai eq by simp
          finally show ?thesis using eq by simp
        qed
      qed
    next
      fix a b
      assume ab: "a < N" "b < N"
        and no: "a \<noteq> i \<or> \<not> (\<exists>d'. writes gene_to_idx (p # lengths) b d')"
      then have "a \<noteq> i \<or> \<not> (\<exists>d'. writes gene_to_idx lengths b d')"
        using w by blast
      with cells ab have "dmat' ! a ! b = ?d ! a ! b" by (simp add: row_result_def)
      also have "\<dots> = dmat ! a ! b"
      proof -
        from no w have "a \<noteq> i \<or> b \<noteq> j" by blast
        then show ?thesis using st(3) [OF ab] by auto
      qed
      finally show "dmat' ! a ! b = dmat ! a ! b" .
    qed
    with d' step show ?thesis by auto
  qed
qed

definition recorded :: "'w adjacency \<Rightarrow> int option \<Rightarrow> gene \<Rightarrow> gene \<Rightarrow> nat \<Rightarrow> bool" where
  "recorded G cutoff g w k =
     (g \<in> set (nodes G) \<and> w \<in> lvl G g k \<and> (k = 0 \<or> within_cutoff cutoff k) \<and> k \<le> 65535)"

definition hit ::
  "'w adjacency \<Rightarrow> (gene \<rightharpoonup> nat) \<Rightarrow> int option \<Rightarrow> gene list \<Rightarrow> nat \<Rightarrow> nat \<Rightarrow> nat \<Rightarrow> bool" where
  "hit G gene_to_idx cutoff gs a b k =
     (\<exists>g w. g \<in> set gs \<and> gene_to_idx g = Some a \<and> gene_to_idx w = Some b \<and> recorded G cutoff g w k)"

definition all_rows_result ::
  "'w adjacency \<Rightarrow> (gene \<rightharpoonup> nat) \<Rightarrow> int option \<Rightarrow> gene list \<Rightarrow> nat \<Rightarrow>
   dist_matrix \<Rightarrow> dist_matrix \<Rightarrow> bool" where
  "all_rows_result G gene_to_idx cutoff gs N dmat dmat' =
     (\<forall>a<N. \<forall>b<N.
        (\<forall>k. hit G gene_to_idx cutoff gs a b k \<longrightarrow> dmat' ! a ! b = of_nat k) \<and>
        (\<not> (\<exists>k. hit G gene_to_idx cutoff gs a b k) \<longrightarrow> dmat' ! a ! b = dmat ! a ! b))"

lemma recorded_unique: "recorded G cutoff g w k \<Longrightarrow> recorded G cutoff g w j \<Longrightarrow> k = j"
  unfolding recorded_def using lvl_unique by blast

lemma bfs_from_each_cells:
  assumes idx: "\<forall>h j. gene_to_idx h = Some j \<longrightarrow> j < N"
    and inj: "\<forall>g h j. gene_to_idx g = Some j \<and> gene_to_idx h = Some j \<longrightarrow> g = h"
  shows "wf_matrix N dmat \<Longrightarrow> distinct gs \<Longrightarrow>
         \<forall>g\<in>set gs. g \<in> set (nodes G) \<and> gene_to_idx g \<noteq> None \<Longrightarrow>
         \<exists>dmat'. bfs_from_each G gene_to_idx cutoff gs dmat = Inr dmat' \<and> wf_matrix N dmat' \<and>
           all_rows_result G gene_to_idx cutoff gs N dmat dmat'"
proof (induction gs arbitrary: dmat)
  case Nil
  then show ?case by (simp add: all_rows_result_def hit_def)
next
  case (Cons g gs)
  from Cons.prems(3) obtain i where g: "g \<in> set (nodes G)" and i: "gene_to_idx g = Some i"
    by auto
  from idx i have iN: "i < N" by blast
  from single_source_correct [OF g, of cutoff] obtain lengths where
    ss: "single_source_shortest_path_length G g cutoff = Inr lengths" and
    set_l: "set lengths = {(w, k). (k = 0 \<or> within_cutoff cutoff k) \<and> w \<in> lvl G g k}"
    by blast
  have func: "functional_on gene_to_idx lengths"
    unfolding functional_on_def
  proof (intro allI impI)
    fix h d h' d'
    assume a: "(h, d) \<in> set lengths \<and> (h', d') \<in> set lengths \<and>
        gene_to_idx h = gene_to_idx h' \<and> gene_to_idx h \<noteq> None"
    then have ne: "gene_to_idx h \<noteq> None" and eq: "gene_to_idx h = gene_to_idx h'"
      by blast+
    from ne obtain j where "gene_to_idx h = Some j" by blast
    with eq have "gene_to_idx h = Some j" "gene_to_idx h' = Some j"
      by simp_all
    with inj have "h = h'" by blast
    with a set_l show "d = d'" using lvl_unique by auto
  qed
  from write_lengths_cells [OF iN idx Cons.prems(1) func] obtain dmat1 where
    w1: "write_lengths gene_to_idx i lengths dmat = Inr dmat1" and wf1: "wf_matrix N dmat1"
    and rr: "row_result gene_to_idx lengths i N dmat dmat1"
    by blast
  have wr: "writes gene_to_idx lengths b k \<longleftrightarrow> (\<exists>w. gene_to_idx w = Some b \<and> recorded G cutoff g w k)" for b k
    unfolding writes_def recorded_def set_l using g by auto
  from Cons.prems have "distinct gs" "\<forall>g\<in>set gs. g \<in> set (nodes G) \<and> gene_to_idx g \<noteq> None"
    and gn: "g \<notin> set gs"
    by simp_all
  from Cons.IH [OF wf1 this(1,2)] obtain dmat' where
    r: "bfs_from_each G gene_to_idx cutoff gs dmat1 = Inr dmat'" and wf': "wf_matrix N dmat'"
    and ar: "all_rows_result G gene_to_idx cutoff gs N dmat1 dmat'"
    by blast
  have no_other: "\<not> hit G gene_to_idx cutoff gs i b k" for b k
    unfolding hit_def using inj i gn by blast
  have split: "hit G gene_to_idx cutoff (g # gs) a b k \<longleftrightarrow>
               (a = i \<and> writes gene_to_idx lengths b k) \<or> hit G gene_to_idx cutoff gs a b k" for a b k
    unfolding hit_def wr using i by auto
  have "all_rows_result G gene_to_idx cutoff (g # gs) N dmat dmat'"
    unfolding all_rows_result_def
  proof (intro allI impI conjI)
    fix a b k
    assume ab: "a < N" "b < N" and h: "hit G gene_to_idx cutoff (g # gs) a b k"
    show "dmat' ! a ! b = of_nat k"
    proof (cases "hit G gene_to_idx cutoff gs a b k")
      case True
      with ar ab show ?thesis by (simp add: all_rows_result_def)
    next
      case False
      with h split have ai: "a = i" and w: "writes gene_to_idx lengths b k" by auto
      from no_other ai have "\<not> (\<exists>k. hit G gene_to_idx cutoff gs a b k)" by simp
      with ar ab have "dmat' ! a ! b = dmat1 ! a ! b" by (simp add: all_rows_result_def)
      also from rr ab ai w have "\<dots> = of_nat k" by (simp add: row_result_def)
      finally show ?thesis .
    qed
  next
    fix a b
    assume ab: "a < N" "b < N" and no: "\<not> (\<exists>k. hit G gene_to_idx cutoff (g # gs) a b k)"
    with split have "\<not> (\<exists>k. hit G gene_to_idx cutoff gs a b k)"
      and "a \<noteq> i \<or> \<not> (\<exists>d. writes gene_to_idx lengths b d)"
      by auto
    with ar rr ab show "dmat' ! a ! b = dmat ! a ! b"
      by (simp add: all_rows_result_def row_result_def)
  qed
  with r wf' w1 ss i show ?case by simp
qed

subsection \<open>The universe index\<close>

lemma foldl_upd_map_of:
  "foldl (\<lambda>m (k, v). m(k \<mapsto> v)) m kvs = m ++ map_of (rev kvs)"
  by (induction kvs arbitrary: m) (auto simp: map_add_def fun_eq_iff split: option.splits)

lemma dict_of_pairs_enumerate:
  assumes "distinct xs"
  shows "dict_of_pairs (zip xs [0..<length xs]) g = Some j \<longleftrightarrow> j < length xs \<and> xs ! j = g"
proof -
  have "distinct (map fst (rev (zip xs [0..<length xs])))"
    using assms by (simp add: rev_map [symmetric])
  then have "dict_of_pairs (zip xs [0..<length xs]) g = Some j \<longleftrightarrow>
             (g, j) \<in> set (zip xs [0..<length xs])"
    by (simp add: dict_of_pairs_def foldl_upd_map_of)
  also have "\<dots> \<longleftrightarrow> j < length xs \<and> xs ! j = g"
    by (auto simp: set_zip)
  finally show ?thesis .
qed

subsection \<open>The graph the script builds\<close>

lemma foldl_add_edge_keys:
  "fst ` set (foldl (\<lambda>G (u, v). add_edge u v dd G) G0 es) =
     fst ` set G0 \<union> fst ` set es \<union> snd ` set es"
proof (induction es arbitrary: G0)
  case Nil
  then show ?case by simp
next
  case (Cons e es)
  obtain u v where e: "e = (u, v)" by (cases e)
  have "fst ` set (foldl (\<lambda>G (u, v). add_edge u v dd G) G0 (e # es)) =
        fst ` set (add_edge u v dd G0) \<union> fst ` set es \<union> snd ` set es"
    using Cons.IH [of "add_edge u v dd G0"] by (simp add: e)
  also have "\<dots> = fst ` set G0 \<union> fst ` set (e # es) \<union> snd ` set (e # es)"
    unfolding keys_add_edge e by auto
  finally show ?case .
qed

lemma foldl_add_edge_data:
  "edge_data (foldl (\<lambda>G (u, v). add_edge u v () G) G0 es) x y \<noteq> None \<longleftrightarrow>
     edge_data G0 x y \<noteq> None \<or> (x, y) \<in> set es \<or> (y, x) \<in> set es"
  by (induction es arbitrary: G0) (auto simp: edge_data_add_edge split: prod.splits)

lemma nodes_precompute_graph:
  "set (nodes (precompute_build_ppi_graph ppi)) = fst ` set ppi \<union> snd ` set ppi"
  using foldl_add_edge_keys [of "()" "[]" ppi]
  by (simp add: nodes_def precompute_build_ppi_graph_def)

lemma edge_rel_precompute_graph:
  "edge_rel (precompute_build_ppi_graph ppi) = set ppi \<union> (set ppi)\<inverse>"
  using foldl_add_edge_data [of "[]" ppi]
  by (auto simp: edge_rel_def nbr_keys_edge_data precompute_build_ppi_graph_def edge_data_def)

lemma sym_precompute_graph: "sym (edge_rel (precompute_build_ppi_graph ppi))"
  unfolding edge_rel_precompute_graph by (auto simp: sym_def)

lemma lvl_in_nodes:
  assumes "g \<in> fst ` set ppi \<union> snd ` set ppi" "w \<in> lvl (precompute_build_ppi_graph ppi) g k"
  shows "w \<in> fst ` set ppi \<union> snd ` set ppi"
proof (cases k)
  case 0
  with assms show ?thesis by (simp add: lvl_0)
next
  case (Suc n)
  with assms(2) have "w \<in> lvl (precompute_build_ppi_graph ppi) g (Suc n)" by simp
  then obtain c where "(c, w) \<in> edge_rel (precompute_build_ppi_graph ppi)"
    unfolding lvl_Suc by blast
  then show ?thesis
    unfolding edge_rel_precompute_graph by force
qed

subsection \<open>Reading the outputs back\<close>

text \<open>
  \<open>load_distance_matrix\<close> of the annotation script, on the two files of a run;
  \<open>stored_distance\<close> is the lookup \<open>matrix.get(idx(a), idx(b))\<close> through it.
\<close>

definition load_distance_matrix ::
  "(gene \<times> nat) list \<Rightarrow> dist_matrix \<Rightarrow> (gene \<rightharpoonup> int) \<times> dist_matrix \<times> nat" where
  "load_distance_matrix index_rows cells =
     (dict_of_pairs (map (\<lambda>(g, i). (g, int i)) index_rows), cells, 65535)"

definition stored_distance :: "outputs \<Rightarrow> gene \<Rightarrow> gene \<Rightarrow> 16 word option" where
  "stored_distance out a b =
     (case (index_file out, matrix_file out) of
        (Some index_rows, Some cells) \<Rightarrow>
          (case load_distance_matrix index_rows cells of
             (gene_to_idx, dmat, max_val) \<Rightarrow>
               (case (gene_to_idx a, gene_to_idx b) of
                  (Some i, Some j) \<Rightarrow>
                    (case dist_lookup dmat i j of Inr v \<Rightarrow> Some v | Inl e \<Rightarrow> None)
                | _ \<Rightarrow> None))
      | _ \<Rightarrow> None)"

text \<open>
  The content of the finished matrix: a cell holds the distance that the search from its
  row gene recorded for its column gene, and otherwise its initial value.
\<close>

definition final_cells :: "'w adjacency \<Rightarrow> int option \<Rightarrow> gene list \<Rightarrow> dist_matrix \<Rightarrow> bool" where
  "final_cells G cutoff U dmat =
     (\<forall>a<length U. \<forall>b<length U.
        (\<forall>k. recorded G cutoff (U ! a) (U ! b) k \<longrightarrow> dmat ! a ! b = of_nat k) \<and>
        (\<not> (\<exists>k. recorded G cutoff (U ! a) (U ! b) k) \<longrightarrow>
           dmat ! a ! b = (if a = b then 0 else 65535)))"

lemma finite_universe: "finite (build_gene_universe ppi dt gd)"
  by (simp add: build_gene_universe_def)

lemma main_result:
  fixes ppi dt gd cutoff empty_ok
  defines "U \<equiv> sorted_list_of_set (build_gene_universe ppi dt gd)"
    and "G \<equiv> precompute_build_ppi_graph ppi"
  assumes ne: "U \<noteq> [] \<or> empty_ok"
  shows "\<exists>dmat. main empty_ok cutoff ppi dt gd =
            \<lparr>index_file = Some (zip U [0..<length U]), matrix_file = Some dmat, raised = None\<rparr>
          \<and> wf_matrix (length U) dmat \<and> final_cells G cutoff U dmat"
proof -
  define N where "N = length U"
  define g2i where "g2i = dict_of_pairs (zip U [0..<N])"
  define gs where "gs = filter (\<lambda>g. g \<in> set (nodes G)) U"
  have dU: "distinct U" and sU: "set U = build_gene_universe ppi dt gd"
    by (simp_all add: U_def finite_universe)
  have g2i: "g2i g = Some j \<longleftrightarrow> j < N \<and> U ! j = g" for g j
    unfolding g2i_def N_def by (rule dict_of_pairs_enumerate [OF dU])
  have idx: "\<forall>h j. g2i h = Some j \<longrightarrow> j < N"
    and inj: "\<forall>g h j. g2i g = Some j \<and> g2i h = Some j \<longrightarrow> g = h"
    by (auto simp: g2i)
  have alloc: "np_memmap_create empty_ok N = Inr (replicate N (replicate N 0))"
    using ne by (auto simp: np_memmap_create_def N_def)
  have wf0: "wf_matrix N (fill_all 65535 (replicate N (replicate N 0)))"
    by (intro fill_all_cells(1) wf_matrix_replicate)
  from zero_diagonal_cells [OF wf0, of "[0..<N]"] obtain dmat1 where
    z: "zero_diagonal [0..<N] (fill_all 65535 (replicate N (replicate N 0))) = Inr dmat1"
    and wf1: "wf_matrix N dmat1"
    and c1: "\<forall>a<N. \<forall>b<N. dmat1 ! a ! b =
               (if a = b \<and> a \<in> set [0..<N] then 0
                else fill_all 65535 (replicate N (replicate N 0)) ! a ! b)"
    by auto
  have init: "dmat1 ! a ! b = (if a = b then 0 else 65535)" if "a < N" "b < N" for a b
    using c1 that fill_all_cells(2) [OF wf_matrix_replicate, of a N b 65535 0] by simp
  have dgs: "distinct gs" by (simp add: gs_def dU)
  have ings: "\<forall>g\<in>set gs. g \<in> set (nodes G) \<and> g2i g \<noteq> None"
  proof
    fix g assume "g \<in> set gs"
    then have "g \<in> set (nodes G)" "g \<in> set U" by (simp_all add: gs_def)
    moreover from \<open>g \<in> set U\<close> obtain j where "j < N" "U ! j = g"
      by (auto simp: in_set_conv_nth N_def)
    then have "g2i g = Some j" by (simp add: g2i)
    ultimately show "g \<in> set (nodes G) \<and> g2i g \<noteq> None" by simp
  qed
  from bfs_from_each_cells [OF idx inj wf1 dgs ings, of cutoff] obtain dmat where
    r: "bfs_from_each G g2i cutoff gs dmat1 = Inr dmat" and wf: "wf_matrix N dmat"
    and ar: "all_rows_result G g2i cutoff gs N dmat1 dmat"
    by blast
  have hit: "hit G g2i cutoff gs a b k \<longleftrightarrow> recorded G cutoff (U ! a) (U ! b) k"
    if ab: "a < N" "b < N" for a b k
  proof
    assume "hit G g2i cutoff gs a b k"
    then show "recorded G cutoff (U ! a) (U ! b) k"
      by (auto simp: hit_def g2i)
  next
    assume rec: "recorded G cutoff (U ! a) (U ! b) k"
    then have "U ! a \<in> set (nodes G)" by (simp add: recorded_def)
    with ab have "U ! a \<in> set gs" by (simp add: gs_def N_def)
    moreover have "g2i (U ! a) = Some a" "g2i (U ! b) = Some b"
      using ab by (simp_all add: g2i)
    ultimately show "hit G g2i cutoff gs a b k"
      using rec unfolding hit_def by blast
  qed
  have fc: "final_cells G cutoff U dmat"
    unfolding final_cells_def N_def [symmetric]
    using ar init hit by (simp add: all_rows_result_def)
  have "main empty_ok cutoff ppi dt gd =
          \<lparr>index_file = Some (zip U [0..<N]), matrix_file = Some dmat, raised = None\<rparr>"
    unfolding main_def Let_def U_def [symmetric] N_def [symmetric] G_def [symmetric]
      g2i_def [symmetric] gs_def [symmetric]
    by (simp add: alloc z r)
  with wf fc show ?thesis unfolding N_def by blast
qed

lemma dict_of_pairs_zip:
  assumes "distinct xs" "length xs = length ys"
  shows "dict_of_pairs (zip xs ys) g = Some v \<longleftrightarrow> (\<exists>j<length xs. xs ! j = g \<and> ys ! j = v)"
proof -
  have "distinct (map fst (rev (zip xs ys)))"
    using assms by (simp add: rev_map [symmetric])
  then have "dict_of_pairs (zip xs ys) g = Some v \<longleftrightarrow> (g, v) \<in> set (zip xs ys)"
    by (simp add: dict_of_pairs_def foldl_upd_map_of)
  also have "\<dots> \<longleftrightarrow> (\<exists>j<length xs. xs ! j = g \<and> ys ! j = v)"
    using assms(2) by (auto simp: set_zip)
  finally show ?thesis .
qed

lemma stored_distance_main:
  assumes out: "out = \<lparr>index_file = Some (zip U [0..<length U]), matrix_file = Some dmat, raised = None\<rparr>"
    and wf: "wf_matrix (length U) dmat" and dU: "distinct U"
    and a: "a < length U" and b: "b < length U"
  shows "stored_distance out (U ! a) (U ! b) = Some (dmat ! a ! b)"
proof -
  let ?g2i = "dict_of_pairs (map (\<lambda>(g, i). (g, int i)) (zip U [0..<length U]))"
  have eq: "map (\<lambda>(g, i). (g, int i)) (zip U [0..<length U]) = zip U (map int [0..<length U])"
    by (simp add: zip_map2)
  have g2i: "?g2i (U ! i) = Some (int i)" if "i < length U" for i
    unfolding eq using dict_of_pairs_zip [OF dU, of "map int [0..<length U]" "U ! i" "int i"] that
    by auto
  have look: "dist_lookup dmat (int a) (int b) = Inr (dmat ! a ! b)"
    using a b wf_matrix_length [OF wf] wf_matrix_nth [OF wf a]
    by (simp add: dist_lookup_def np_getitem_in_range)
  show ?thesis
    by (simp add: stored_distance_def out load_distance_matrix_def g2i [OF a] g2i [OF b] look)
qed

lemma recorded_sym:
  assumes "recorded (precompute_build_ppi_graph ppi) cutoff g w k"
  shows "recorded (precompute_build_ppi_graph ppi) cutoff w g k"
proof -
  let ?G = "precompute_build_ppi_graph ppi"
  from assms have g: "g \<in> set (nodes ?G)" and w: "w \<in> lvl ?G g k"
    and k: "(k = 0 \<or> within_cutoff cutoff k) \<and> k \<le> 65535"
    by (simp_all add: recorded_def)
  from g w have "w \<in> set (nodes ?G)"
    using lvl_in_nodes [of g ppi w k] by (simp add: nodes_precompute_graph)
  moreover from w have "g \<in> lvl ?G w k"
    using lvl_sym [OF sym_precompute_graph] by blast
  ultimately show ?thesis using k by (simp add: recorded_def)
qed

lemma final_cells_sym:
  assumes "final_cells (precompute_build_ppi_graph ppi) cutoff U dmat" "a < length U" "b < length U"
  shows "dmat ! a ! b = dmat ! b ! a"
proof (cases "\<exists>k. recorded (precompute_build_ppi_graph ppi) cutoff (U ! a) (U ! b) k")
  case True
  then obtain k where k: "recorded (precompute_build_ppi_graph ppi) cutoff (U ! a) (U ! b) k"
    by blast
  then have "recorded (precompute_build_ppi_graph ppi) cutoff (U ! b) (U ! a) k"
    by (rule recorded_sym)
  with k assms show ?thesis by (simp add: final_cells_def)
next
  case False
  then have "\<not> (\<exists>k. recorded (precompute_build_ppi_graph ppi) cutoff (U ! b) (U ! a) k)"
    using recorded_sym by blast
  with False assms show ?thesis by (auto simp: final_cells_def)
qed

lemma final_cells_diag:
  assumes "final_cells G cutoff U dmat" "a < length U"
  shows "dmat ! a ! a = 0"
proof (cases "\<exists>k. recorded G cutoff (U ! a) (U ! a) k")
  case True
  then obtain k where k: "recorded G cutoff (U ! a) (U ! a) k" by blast
  then have "U ! a \<in> lvl G (U ! a) k" by (simp add: recorded_def)
  moreover have "U ! a \<in> lvl G (U ! a) 0" by (simp add: lvl_0)
  ultimately have "k = 0" by (rule lvl_unique)
  with k assms show ?thesis by (auto simp: final_cells_def)
next
  case False
  with assms show ?thesis by (simp add: final_cells_def)
qed

lemma universe_index:
  assumes "g \<in> build_gene_universe ppi dt gd"
  shows "\<exists>a<length (sorted_list_of_set (build_gene_universe ppi dt gd)).
           sorted_list_of_set (build_gene_universe ppi dt gd) ! a = g"
proof -
  from assms have "g \<in> set (sorted_list_of_set (build_gene_universe ppi dt gd))"
    by (simp add: finite_universe)
  then show ?thesis by (simp add: in_set_conv_nth)
qed

lemma nodes_in_universe:
  "a \<in> set (nodes (precompute_build_ppi_graph ppi)) \<Longrightarrow> a \<in> build_gene_universe ppi dt gd"
  by (auto simp: nodes_precompute_graph build_gene_universe_def)

text \<open>
  Claim C7. For genes \<open>a\<close> and \<open>b\<close> that are both nodes of the interaction graph, the run
  completes and the stored distance from \<open>a\<close> to \<open>b\<close> equals the stored distance from
  \<open>b\<close> to \<open>a\<close>, for every cutoff (and none); the script has no symmetric-fill step.
  Reachability is not needed: unreachable pairs hold the sentinel both ways.
\<close>

theorem matrix_symmetric:
  assumes "a \<in> set (nodes (precompute_build_ppi_graph ppi))"
    and "b \<in> set (nodes (precompute_build_ppi_graph ppi))"
  shows "raised (main empty_ok cutoff ppi dt gd) = None
       \<and> (\<exists>v. stored_distance (main empty_ok cutoff ppi dt gd) a b = Some v
              \<and> stored_distance (main empty_ok cutoff ppi dt gd) b a = Some v)"
proof -
  let ?U = "sorted_list_of_set (build_gene_universe ppi dt gd)"
  from assms obtain i j where i: "i < length ?U" "?U ! i = a" and j: "j < length ?U" "?U ! j = b"
    using universe_index nodes_in_universe by metis
  then have "?U \<noteq> []" by (metis list.size(3) not_less_zero)
  with main_result [of ppi dt gd empty_ok cutoff] obtain dmat where
    out: "main empty_ok cutoff ppi dt gd =
            \<lparr>index_file = Some (zip ?U [0..<length ?U]), matrix_file = Some dmat, raised = None\<rparr>"
    and wf: "wf_matrix (length ?U) dmat"
    and fc: "final_cells (precompute_build_ppi_graph ppi) cutoff ?U dmat"
    by blast
  have dU: "distinct ?U" by simp
  have "stored_distance (main empty_ok cutoff ppi dt gd) a b = Some (dmat ! i ! j)"
    using stored_distance_main [OF out wf dU i(1) j(1)] i j by simp
  moreover have "stored_distance (main empty_ok cutoff ppi dt gd) b a = Some (dmat ! j ! i)"
    using stored_distance_main [OF out wf dU j(1) i(1)] i j by simp
  moreover have "dmat ! i ! j = dmat ! j ! i"
    using final_cells_sym [OF fc i(1) j(1)] .
  ultimately show ?thesis using out by simp
qed

text \<open>
  Claim C8. For every gene of the universe, in the graph or not, the run completes and the
  stored distance from the gene to itself is 0.
\<close>

theorem diagonal_zero:
  assumes "g \<in> build_gene_universe ppi dt gd"
  shows "raised (main empty_ok cutoff ppi dt gd) = None
       \<and> stored_distance (main empty_ok cutoff ppi dt gd) g g = Some 0"
proof -
  let ?U = "sorted_list_of_set (build_gene_universe ppi dt gd)"
  from assms obtain i where i: "i < length ?U" "?U ! i = g"
    using universe_index by blast
  then have "?U \<noteq> []" by (metis list.size(3) not_less_zero)
  with main_result [of ppi dt gd empty_ok cutoff] obtain dmat where
    out: "main empty_ok cutoff ppi dt gd =
            \<lparr>index_file = Some (zip ?U [0..<length ?U]), matrix_file = Some dmat, raised = None\<rparr>"
    and wf: "wf_matrix (length ?U) dmat"
    and fc: "final_cells (precompute_build_ppi_graph ppi) cutoff ?U dmat"
    by blast
  have dU: "distinct ?U" by simp
  have "stored_distance (main empty_ok cutoff ppi dt gd) g g = Some (dmat ! i ! i)"
    using stored_distance_main [OF out wf dU i(1) i(1)] i by simp
  with final_cells_diag [OF fc i(1)] out show ?thesis by simp
qed

unbundle bit_operations_syntax

text \<open>
  The matrix file as bytes: row-major, two bytes per cell, low byte first. Where the mapping
  of an array without cells succeeds, \<open>np.memmap\<close> has written one zero byte, since an empty
  file cannot be mapped; where it raises, the file was created and is empty.
\<close>

definition matrix_bytes :: "dist_matrix \<Rightarrow> 8 word list" where
  "matrix_bytes dmat = concat (map (\<lambda>w. [ucast w, ucast (drop_bit 8 w)]) (concat dmat))"

definition file_bytes :: "outputs \<Rightarrow> 8 word list option" where
  "file_bytes out =
     map_option (\<lambda>dmat. if dmat = [] \<and> raised out = None then [0] else matrix_bytes dmat)
       (matrix_file out)"

lemma recorded_cong:
  assumes "set (nodes G) = set (nodes G')" "edge_rel G = edge_rel G'"
  shows "recorded G cutoff g w k = recorded G' cutoff g w k"
  using assms by (simp add: recorded_def lvl_def)

lemma final_cells_unique:
  assumes "wf_matrix (length U) d" "wf_matrix (length U) d'"
    and "final_cells G cutoff U d" "final_cells G' cutoff U d'"
    and "\<And>g w k. recorded G cutoff g w k = recorded G' cutoff g w k"
  shows "d = d'"
proof (rule nth_equalityI)
  show "length d = length d'"
    using assms(1,2) by (simp add: wf_matrix_def)
next
  fix a assume "a < length d"
  then have a: "a < length U" using assms(1) by (simp add: wf_matrix_def)
  show "d ! a = d' ! a"
  proof (rule nth_equalityI)
    show "length (d ! a) = length (d' ! a)"
      using wf_matrix_nth [OF assms(1) a] wf_matrix_nth [OF assms(2) a] by simp
  next
    fix b assume "b < length (d ! a)"
    then have b: "b < length U" using wf_matrix_nth [OF assms(1) a] by simp
    show "d ! a ! b = d' ! a ! b"
    proof (cases "\<exists>k. recorded G cutoff (U ! a) (U ! b) k")
      case True
      then obtain k where "recorded G cutoff (U ! a) (U ! b) k" by blast
      moreover then have "recorded G' cutoff (U ! a) (U ! b) k" by (simp add: assms(5))
      ultimately show ?thesis using assms(3,4) a b by (simp add: final_cells_def)
    next
      case False
      moreover then have "\<not> (\<exists>k. recorded G' cutoff (U ! a) (U ! b) k)" by (simp add: assms(5))
      ultimately show ?thesis using assms(3,4) a b by (simp add: final_cells_def)
    qed
  qed
qed

lemma main_empty:
  assumes "build_gene_universe ppi dt gd = {}"
  shows "main empty_ok cutoff ppi dt gd =
           \<lparr>index_file = Some [], matrix_file = Some [],
             raised = (if empty_ok then None else Some ValueError)\<rparr>"
proof -
  from assms have "ppi = []" by (auto simp: build_gene_universe_def)
  with assms show ?thesis
    by (simp add: main_def np_memmap_create_def fill_all_def precompute_build_ppi_graph_def
        nodes_def dict_of_pairs_def)
qed

text \<open>
  Claim C9. The outputs depend only on the sets of rows of the three inputs: two runs on
  inputs with the same rows in any order (and any multiplicity) leave the same index file and
  the same matrix file, byte for byte; a run on identical inputs is the special case. The
  index of a gene is its 0-based position in the sorted universe.
\<close>

theorem main_deterministic:
  assumes "set ppi = set ppi'" "set dt = set dt'" "set gd = set gd'"
  shows "main empty_ok cutoff ppi dt gd = main empty_ok cutoff ppi' dt' gd'
       \<and> file_bytes (main empty_ok cutoff ppi dt gd) = file_bytes (main empty_ok cutoff ppi' dt' gd')
       \<and> index_file (main empty_ok cutoff ppi dt gd) =
           Some (zip (sorted_list_of_set (build_gene_universe ppi dt gd))
                     [0..<card (build_gene_universe ppi dt gd)])"
proof -
  let ?S = "build_gene_universe ppi dt gd"
  let ?U = "sorted_list_of_set ?S"
  have S: "build_gene_universe ppi' dt' gd' = ?S"
    using assms by (simp add: build_gene_universe_def)
  have "main empty_ok cutoff ppi dt gd = main empty_ok cutoff ppi' dt' gd'
      \<and> index_file (main empty_ok cutoff ppi dt gd) = Some (zip ?U [0..<card ?S])"
  proof (cases "?U \<noteq> [] \<or> empty_ok")
    case True
    from main_result [of ppi dt gd empty_ok cutoff] True obtain d where
      out: "main empty_ok cutoff ppi dt gd =
              \<lparr>index_file = Some (zip ?U [0..<length ?U]), matrix_file = Some d, raised = None\<rparr>"
      and wf: "wf_matrix (length ?U) d"
      and fc: "final_cells (precompute_build_ppi_graph ppi) cutoff ?U d"
      by blast
    from main_result [of ppi' dt' gd' empty_ok cutoff] True obtain d' where
      out': "main empty_ok cutoff ppi' dt' gd' =
              \<lparr>index_file = Some (zip ?U [0..<length ?U]), matrix_file = Some d', raised = None\<rparr>"
      and wf': "wf_matrix (length ?U) d'"
      and fc': "final_cells (precompute_build_ppi_graph ppi') cutoff ?U d'"
      unfolding S by blast
    have "recorded (precompute_build_ppi_graph ppi) cutoff g w k =
          recorded (precompute_build_ppi_graph ppi') cutoff g w k" for g w k
      by (rule recorded_cong) (simp_all add: nodes_precompute_graph edge_rel_precompute_graph assms)
    with wf wf' fc fc' have "d = d'" by (rule final_cells_unique)
    with out out' show ?thesis by simp
  next
    case False
    then have e: "?S = {}"
      using finite_universe [of ppi dt gd] by (metis sorted_list_of_set.set_sorted_key_list_of_set set_empty2)
    then have e': "build_gene_universe ppi' dt' gd' = {}" using S by simp
    show ?thesis
      by (simp add: main_empty [OF e] main_empty [OF e'] e)
  qed
  then show ?thesis by metis
qed

theorem main_deterministic_witness:
  "main False (Some 2) [(''B'', ''A''), (''B'', ''C''), (''A'', ''B'')] [''Z'', ''A''] [''C'']
     = main False (Some 2) [(''A'', ''B''), (''B'', ''C''), (''B'', ''A''), (''B'', ''C'')]
         [''A'', ''Z'', ''Z''] [''C'', ''C'']
   \<and> index_file (main False (Some 2) [(''B'', ''A''), (''B'', ''C''), (''A'', ''B'')] [''Z'', ''A''] [''C''])
     = Some [(''A'', 0), (''B'', 1), (''C'', 2), (''Z'', 3)]"
proof -
  have u: "sorted_list_of_set (build_gene_universe [(''B'', ''A''), (''B'', ''C''), (''A'', ''B'')] [''Z'', ''A''] [''C''])
           = [''A'', ''B'', ''C'', ''Z'']"
    by code_simp
  have c: "card (build_gene_universe [(''B'', ''A''), (''B'', ''C''), (''A'', ''B'')] [''Z'', ''A''] [''C'']) = 4"
    by code_simp
  have z: "zip [''A'', ''B'', ''C'', ''Z''] [0..<4] = [(''A'', 0), (''B'', 1), (''C'', 2), (''Z'', 3)]"
    by code_simp
  have "set [(''B'', ''A''), (''B'', ''C''), (''A'', ''B'')] =
        set [(''A'', ''B''), (''B'', ''C''), (''B'', ''A''), (''B'', ''C'')]"
    and "set [''Z'', ''A''] = set [''A'', ''Z'', ''Z'']" and "set [''C''] = set [''C'', ''C'']"
    by auto
  from main_deterministic [OF this, of False "Some 2"] show ?thesis
    unfolding u c z by blast
qed

theorem matrix_symmetric_witness:
  "raised (main False None [(''B'', ''A''), (''B'', ''C''), (''A'', ''B'')] [''Z'', ''A''] [''C'']) = None
   \<and> (\<exists>v. stored_distance (main False None [(''B'', ''A''), (''B'', ''C''), (''A'', ''B'')] [''Z'', ''A''] [''C''])
             ''A'' ''C'' = Some v
        \<and> stored_distance (main False None [(''B'', ''A''), (''B'', ''C''), (''A'', ''B'')] [''Z'', ''A''] [''C''])
             ''C'' ''A'' = Some v)"
  by (rule matrix_symmetric) (simp_all add: nodes_precompute_graph)

theorem diagonal_zero_witness:
  "raised (main False None [(''B'', ''A''), (''B'', ''C''), (''A'', ''B'')] [''Z'', ''A''] [''C'']) = None
   \<and> stored_distance (main False None [(''B'', ''A''), (''B'', ''C''), (''A'', ''B'')] [''Z'', ''A''] [''C''])
        ''Z'' ''Z'' = Some 0"
  by (rule diagonal_zero) (simp add: build_gene_universe_def)

text \<open>
  Claim C5 (as amended). The script has no check for an empty universe. When the universe is
  empty it writes the index file with no rows, creates the matrix file with no cells, and
  then either fails inside \<open>np.memmap\<close> with \<open>ValueError\<close> or completes, depending on
  numpy; no EmptyUniverse signal is raised.
\<close>

theorem main_empty_universe:
  "build_gene_universe ppi dt gd = {} \<Longrightarrow>
   main empty_ok cutoff ppi dt gd =
     \<lparr>index_file = Some [], matrix_file = Some [],
       raised = (if empty_ok then None else Some ValueError)\<rparr>"
  by (rule main_empty)

theorem main_empty_universe_witness:
  "main False None [] [] [] = \<lparr>index_file = Some [], matrix_file = Some [], raised = Some ValueError\<rparr>
   \<and> main True None [] [] [] = \<lparr>index_file = Some [], matrix_file = Some [], raised = None\<rparr>"
  using main_empty_universe [of "[]" "[]" "[]" False None]
    main_empty_universe [of "[]" "[]" "[]" True None]
  by (simp add: build_gene_universe_def)

text \<open>
  Claim C5 as stated fails: with all three inputs empty both files exist after the run.
\<close>

theorem main_empty_universe_counterexample:
  "build_gene_universe [] [] [] = {}
   \<and> index_file (main False None [] [] []) \<noteq> None
   \<and> matrix_file (main False None [] [] []) \<noteq> None"
  by (simp add: main_empty build_gene_universe_def)

section \<open>Duplicate edges in the graph builder (src/ddh/graphs.py)\<close>

text \<open>
  An interaction connects \<open>u\<close> and \<open>v\<close> in either orientation. The weight
  \<open>build_ppi_graph\<close> passes to \<open>add_edge\<close> is the record's weight, or \<open>1.0\<close>.
\<close>

definition connects :: "GeneGeneInteraction \<Rightarrow> gene \<Rightarrow> gene \<Rightarrow> bool" where
  "connects interaction u v =
     ((gene1_id interaction = u \<and> gene2_id interaction = v) \<or> (gene1_id interaction = v \<and> gene2_id interaction = u))"

definition weight_or_default :: "GeneGeneInteraction \<Rightarrow> real" where
  "weight_or_default interaction = (case weight interaction of Some x \<Rightarrow> x | None \<Rightarrow> 1)"

text \<open>Every neighbour dict has each key once.\<close>

definition inner_distinct :: "'w adjacency \<Rightarrow> bool" where
  "inner_distinct adj = (\<forall>x nbrs. map_of adj x = Some nbrs \<longrightarrow> distinct (map fst nbrs))"

lemma inner_distinct_add_node: "inner_distinct adj \<Longrightarrow> inner_distinct (add_node u adj)"
  by (auto simp: inner_distinct_def map_of_add_node split: if_splits)

lemma inner_distinct_map_entry:
  "inner_distinct adj \<Longrightarrow> inner_distinct (AList.map_entry u (AList.update v dd) adj)"
  by (auto simp: inner_distinct_def AList.map_of_map_entry AList.distinct_update
      split: if_splits option.splits)

lemma inner_distinct_add_edge: "inner_distinct adj \<Longrightarrow> inner_distinct (add_edge u v dd adj)"
  by (simp add: add_edge_def inner_distinct_map_entry inner_distinct_add_node)

lemma build_ppi_graph_snoc:
  "build_ppi_graph (interactions @ [interaction]) =
     add_edge (gene1_id interaction) (gene2_id interaction) (weight_or_default interaction) (build_ppi_graph interactions)"
  by (simp add: build_ppi_graph_def weight_or_default_def)

lemma inner_distinct_build: "inner_distinct (build_ppi_graph interactions)"
proof (induction interactions rule: rev_induct)
  case Nil
  then show ?case by (simp add: build_ppi_graph_def inner_distinct_def)
next
  case (snoc interaction interactions)
  then show ?case by (simp add: build_ppi_graph_snoc inner_distinct_add_edge)
qed

lemma edge_data_build:
  "edge_data (build_ppi_graph interactions) u v =
     (if filter (\<lambda>i. connects i u v) interactions = [] then None
      else Some (weight_or_default (last (filter (\<lambda>i. connects i u v) interactions))))"
proof (induction interactions rule: rev_induct)
  case Nil
  then show ?case by (simp add: build_ppi_graph_def edge_data_def)
next
  case (snoc interaction interactions)
  have cond: "((u = gene1_id interaction \<and> v = gene2_id interaction) \<or>
               (u = gene2_id interaction \<and> v = gene1_id interaction)) = connects interaction u v"
    by (auto simp: connects_def)
  have "edge_data (build_ppi_graph (interactions @ [interaction])) u v =
        (if connects interaction u v then Some (weight_or_default interaction)
         else edge_data (build_ppi_graph interactions) u v)"
    unfolding build_ppi_graph_snoc edge_data_add_edge cond ..
  with snoc show ?case by simp
qed

lemma count_list_distinct: "distinct xs \<Longrightarrow> count_list xs v = (if v \<in> set xs then 1 else 0)"
  by (induction xs) auto

lemma distinct_nbr_keys: "inner_distinct adj \<Longrightarrow> distinct (nbr_keys adj u)"
  by (auto simp: inner_distinct_def nbr_keys_def split: option.splits)

lemma connects_commute: "connects i u v = connects i v u"
  by (auto simp: connects_def)

text \<open>
  Claim C6 (as amended). However often and in whichever orientation an edge list names the
  pair \<open>{u, v}\<close>, the graph holds exactly one entry for \<open>v\<close> among the neighbours of
  \<open>u\<close> (none when the pair never occurs), the same data under both orientations, and the
  weight is that of the last interaction of the list that connects the pair.
\<close>

theorem build_ppi_graph_collapses:
  "count_list (nbr_keys (build_ppi_graph interactions) u) v =
     (if filter (\<lambda>i. connects i u v) interactions = [] then 0 else 1)
   \<and> edge_data (build_ppi_graph interactions) u v = edge_data (build_ppi_graph interactions) v u
   \<and> edge_data (build_ppi_graph interactions) u v =
       (if filter (\<lambda>i. connects i u v) interactions = [] then None
        else Some (weight_or_default (last (filter (\<lambda>i. connects i u v) interactions))))"
proof -
  let ?G = "build_ppi_graph interactions"
  have f: "filter (\<lambda>i. connects i v u) interactions = filter (\<lambda>i. connects i u v) interactions"
    by (metis connects_commute)
  have c: "count_list (nbr_keys ?G u) v = (if edge_data ?G u v \<noteq> None then 1 else 0)"
    using count_list_distinct [OF distinct_nbr_keys [OF inner_distinct_build]]
    by (simp add: nbr_keys_edge_data)
  have s: "edge_data ?G u v = edge_data ?G v u"
    unfolding edge_data_build f ..
  have e: "edge_data ?G u v \<noteq> None \<longleftrightarrow> filter (\<lambda>i. connects i u v) interactions \<noteq> []"
    unfolding edge_data_build by simp
  have "count_list (nbr_keys ?G u) v =
          (if filter (\<lambda>i. connects i u v) interactions = [] then 0 else 1)"
    unfolding c e by simp
  with s show ?thesis
    using edge_data_build [of interactions u v] by blast
qed

text \<open>
  The edge list \<open>(A, B, 0.9), (B, A, 0.5)\<close>: one edge, with weight 0.5.
\<close>

theorem build_ppi_graph_collapses_witness:
  "count_list (nbr_keys (build_ppi_graph
       [\<lparr>gene1_id = ''A'', gene2_id = ''B'', weight = Some 0.9, source = ''ppi''\<rparr>,
        \<lparr>gene1_id = ''B'', gene2_id = ''A'', weight = Some 0.5, source = ''ppi''\<rparr>]) ''A'') ''B'' = 1
   \<and> edge_data (build_ppi_graph
       [\<lparr>gene1_id = ''A'', gene2_id = ''B'', weight = Some 0.9, source = ''ppi''\<rparr>,
        \<lparr>gene1_id = ''B'', gene2_id = ''A'', weight = Some 0.5, source = ''ppi''\<rparr>]) ''B'' ''A'' = Some 0.5
   \<and> number_of_edges (build_ppi_graph
       [\<lparr>gene1_id = ''A'', gene2_id = ''B'', weight = Some 0.9, source = ''ppi''\<rparr>,
        \<lparr>gene1_id = ''B'', gene2_id = ''A'', weight = Some 0.5, source = ''ppi''\<rparr>]) = 1"
proof -
  have g: "build_ppi_graph
       [\<lparr>gene1_id = ''A'', gene2_id = ''B'', weight = Some 0.9, source = ''ppi''\<rparr>,
        \<lparr>gene1_id = ''B'', gene2_id = ''A'', weight = Some 0.5, source = ''ppi''\<rparr>]
      = [(''A'', [(''B'', 0.5)]), (''B'', [(''A'', 0.5)])]"
    by (simp add: build_ppi_graph_def add_edge_def add_node_def Let_def)
  have n: "number_of_edges [(''A'', [(''B'', 0.5 :: real)]), (''B'', [(''A'', 0.5)])] = 1"
    by (simp add: number_of_edges_def)
  from build_ppi_graph_collapses [of
       "[\<lparr>gene1_id = ''A'', gene2_id = ''B'', weight = Some 0.9, source = ''ppi''\<rparr>,
        \<lparr>gene1_id = ''B'', gene2_id = ''A'', weight = Some 0.5, source = ''ppi''\<rparr>]" "''A''" "''B''"]
  show ?thesis
    unfolding g n by (simp add: connects_def weight_or_default_def edge_data_def nbr_keys_def)
qed

text \<open>
  Claim C6 as stated fails on the weight: the edge keeps 0.5, the last weight, not the
  maximum 0.9.
\<close>

theorem build_ppi_graph_max_weight_counterexample:
  "edge_data (build_ppi_graph
       [\<lparr>gene1_id = ''A'', gene2_id = ''B'', weight = Some 0.9, source = ''ppi''\<rparr>,
        \<lparr>gene1_id = ''B'', gene2_id = ''A'', weight = Some 0.5, source = ''ppi''\<rparr>]) ''A'' ''B'' = Some 0.5
   \<and> (0.5 :: real) < max 0.9 0.5"
  by (simp add: build_ppi_graph_def add_edge_def add_node_def edge_data_def Let_def)

section \<open>Graph-based proximity (src/ddh/scoring.py)\<close>

text \<open>
  \<open>compute_network_proximity\<close> works on the graph in memory. The two maps are dicts from
  an identifier to a Python set of genes: association lists in insertion order, with values
  of type \<open>gene set\<close>; a loop over a set runs over \<open>sorted_list_of_set\<close> (the mean does
  not depend on the order). \<open>nx.shortest_path_length(G, s, t)\<close> is the number of edges of
  a shortest path; it raises \<open>NodeNotFound\<close> for a node that is not in the graph and
  \<open>NetworkXNoPath\<close> when there is no path. The model reads it off the breadth-first
  search above.
\<close>

definition nx_shortest_path_length :: "'w adjacency \<Rightarrow> gene \<Rightarrow> gene \<Rightarrow> error + nat" where
  "nx_shortest_path_length G s t =
     (if s \<notin> set (nodes G) \<or> t \<notin> set (nodes G) then Inl NodeNotFound
      else (case single_source_shortest_path_length G s None of
              Inl e \<Rightarrow> Inl e
            | Inr lengths \<Rightarrow>
                (case map_of lengths t of None \<Rightarrow> Inl NetworkXNoPath | Some d \<Rightarrow> Inr d)))"

text \<open>
  The two inner loops over \<open>drug_genes\<close> and \<open>dis_genes\<close>: only \<open>NetworkXNoPath\<close> is
  caught.
\<close>

fun distances_from :: "'w adjacency \<Rightarrow> gene \<Rightarrow> gene list \<Rightarrow> nat list \<Rightarrow> error + nat list" where
  "distances_from G t [] distances = Inr distances"
| "distances_from G t (g # gs) distances =
     (if t \<in> set (nodes G) \<and> g \<in> set (nodes G) then
        (case nx_shortest_path_length G t g of
           Inr d \<Rightarrow> distances_from G t gs (distances @ [d])
         | Inl NetworkXNoPath \<Rightarrow> distances_from G t gs distances
         | Inl e \<Rightarrow> Inl e)
      else distances_from G t gs distances)"

fun pair_distances :: "'w adjacency \<Rightarrow> gene list \<Rightarrow> gene list \<Rightarrow> nat list \<Rightarrow> error + nat list" where
  "pair_distances G [] dis_genes distances = Inr distances"
| "pair_distances G (t # ts) dis_genes distances =
     (case distances_from G t dis_genes distances of
        Inl e \<Rightarrow> Inl e
      | Inr distances' \<Rightarrow> pair_distances G ts dis_genes distances')"

record proximity_row =
  px_drug_id :: string
  px_disease_id :: string
  mean_distance :: pyfloat
  proximity_score :: real

text \<open>
  One row of the result: the mean of the distances found, or \<open>default_distance\<close> when none
  was found; \<open>proximity_score = 1.0 / (1.0 + mean_distance)\<close>.
\<close>

definition network_pair_row ::
  "'w adjacency \<Rightarrow> pyfloat \<Rightarrow> string \<times> gene set \<Rightarrow> string \<times> gene set \<Rightarrow> error + proximity_row" where
  "network_pair_row G default_distance drug disease =
     (case pair_distances G (sorted_list_of_set (snd drug)) (sorted_list_of_set (snd disease)) [] of
        Inl e \<Rightarrow> Inl e
      | Inr distances \<Rightarrow>
          let mean_distance =
                (if distances \<noteq> [] then Finite (real (sum_list distances) / real (length distances))
                 else default_distance)
          in (case mean_distance of
                PosInf \<Rightarrow>
                  Inr \<lparr>px_drug_id = fst drug, px_disease_id = fst disease,
                        mean_distance = PosInf, proximity_score = 0\<rparr>
              | Finite m \<Rightarrow>
                  if 1 + m = 0 then Inl ZeroDivisionError
                  else Inr \<lparr>px_drug_id = fst drug, px_disease_id = fst disease,
                             mean_distance = Finite m, proximity_score = 1 / (1 + m)\<rparr>))"

fun collect_rows :: "(error + 'a) list \<Rightarrow> error + 'a list" where
  "collect_rows [] = Inr []"
| "collect_rows (r # rs) =
     (case r of
        Inl e \<Rightarrow> Inl e
      | Inr x \<Rightarrow> (case collect_rows rs of Inl e \<Rightarrow> Inl e | Inr xs \<Rightarrow> Inr (x # xs)))"

text \<open>
  All pairs, drug-major, then \<open>sort_values\<close> by \<open>proximity_score\<close> descending, \<open>drug_id\<close>
  and \<open>disease_id\<close> ascending.
\<close>

definition compute_network_proximity ::
  "'w adjacency \<Rightarrow> (string \<times> gene set) list \<Rightarrow> (string \<times> gene set) list \<Rightarrow> pyfloat \<Rightarrow>
   error + proximity_row list" where
  "compute_network_proximity G drug_to_genes disease_to_genes default_distance =
     (case collect_rows
             (concat (map (\<lambda>drug. map (network_pair_row G default_distance drug) disease_to_genes)
                          drug_to_genes)) of
        Inl e \<Rightarrow> Inl e
      | Inr rows \<Rightarrow>
          Inr (sort_key (\<lambda>r. (- proximity_score r, px_drug_id r, px_disease_id r)) rows))"

text \<open>Two genes are linked when both are nodes and a path joins them.\<close>

definition linked :: "'w adjacency \<Rightarrow> gene \<Rightarrow> gene \<Rightarrow> bool" where
  "linked G t g = (t \<in> set (nodes G) \<and> g \<in> set (nodes G) \<and> (\<exists>k. g \<in> lvl G t k))"

lemma nx_shortest_path_length_no_path:
  assumes "t \<in> set (nodes G)" "g \<in> set (nodes G)" "\<not> linked G t g"
  shows "nx_shortest_path_length G t g = Inl NetworkXNoPath"
proof -
  from single_source_correct [OF assms(1), of None] obtain lengths where
    l: "single_source_shortest_path_length G t None = Inr lengths"
    and s: "set lengths = {(w, k). (k = 0 \<or> within_cutoff None k) \<and> w \<in> lvl G t k}"
    by blast
  from assms have "\<And>k. g \<notin> lvl G t k" by (simp add: linked_def)
  with s have "g \<notin> fst ` set lengths" by auto
  then have "map_of lengths g = None" by (simp add: map_of_eq_None_iff)
  with assms l show ?thesis by (simp add: nx_shortest_path_length_def)
qed

lemma distances_from_none:
  "\<forall>g\<in>set gs. \<not> linked G t g \<Longrightarrow> distances_from G t gs distances = Inr distances"
  by (induction gs arbitrary: distances) (auto simp: nx_shortest_path_length_no_path)

lemma pair_distances_none:
  "\<forall>t\<in>set ts. \<forall>g\<in>set gs. \<not> linked G t g \<Longrightarrow> pair_distances G ts gs distances = Inr distances"
  by (induction ts arbitrary: distances) (auto simp: distances_from_none)

lemma network_pair_row_default:
  assumes "finite D" "finite S" "\<forall>t\<in>D. \<forall>g\<in>S. \<not> linked G t g" "1 + dd \<noteq> 0"
  shows "network_pair_row G (Finite dd) (drug_id, D) (disease_id, S) =
           Inr \<lparr>px_drug_id = drug_id, px_disease_id = disease_id,
                 mean_distance = Finite dd, proximity_score = 1 / (1 + dd)\<rparr>"
proof -
  have "pair_distances G (sorted_list_of_set D) (sorted_list_of_set S) [] = Inr []"
    using assms(1-3) by (intro pair_distances_none) simp
  with assms(4) show ?thesis by (simp add: network_pair_row_def)
qed

lemma proximity_zero_iff:
  assumes "mean_distance_for_pair drug_id disease_id drug_to_genes disease_to_genes gene_to_idx dmat mv = Inr r"
  shows "proximity_of r = 0 \<longleftrightarrow> r = PosInf"
proof (cases r)
  case (Finite x)
  with assms have "0 \<le> x" by (simp add: mean_distance_for_pair_nonneg)
  with Finite show ?thesis by simp
next
  case PosInf
  then show ?thesis by simp
qed

text \<open>
  Claim C2 (as amended). The matrix-based scorer returns \<open>+inf\<close> exactly when there is no
  finite distance evidence: a gene set is missing or empty or has no gene in the index map
  (whatever the matrix is, even an empty one, so the matrix is not read), or every cell
  looked up holds the sentinel; it is a normal return, and the proximity score of a result
  is 0 exactly when the result is \<open>+inf\<close>. The graph-based scorer
  \<open>compute_network_proximity\<close> is different by design: when no drug gene is linked to a
  disease gene the row gets \<open>default_distance\<close> (5.0 unless the caller says otherwise) and
  the proximity score \<open>1 / (1 + default_distance)\<close>.
\<close>

theorem no_evidence_results:
  "(mean_distance_for_pair drug_id disease_id drug_to_genes disease_to_genes gene_to_idx dmat 65535
      = Inr PosInf
    \<longleftrightarrow>
      gene_set drug_to_genes drug_id \<inter> dom gene_to_idx = {}
    \<or> gene_set disease_to_genes disease_id \<inter> dom gene_to_idx = {}
    \<or> (\<forall>g \<in> gene_set drug_to_genes drug_id \<inter> dom gene_to_idx.
        \<forall>h \<in> gene_set disease_to_genes disease_id \<inter> dom gene_to_idx.
          dist_lookup dmat (the (gene_to_idx g)) (the (gene_to_idx h)) = Inr 65535))
   \<and> (\<forall>r. mean_distance_for_pair drug_id disease_id drug_to_genes disease_to_genes gene_to_idx dmat 65535
            = Inr r \<longrightarrow> (proximity_of r = 0 \<longleftrightarrow> r = PosInf))
   \<and> (finite D \<and> finite S \<and> (\<forall>t\<in>D. \<forall>g\<in>S. \<not> linked G t g) \<and> 1 + dd \<noteq> 0 \<longrightarrow>
        network_pair_row G (Finite dd) (drug_id, D) (disease_id, S) =
          Inr \<lparr>px_drug_id = drug_id, px_disease_id = disease_id,
                mean_distance = Finite dd, proximity_score = 1 / (1 + dd)\<rparr>)"
  using mean_distance_for_pair_inf_iff [of drug_id disease_id drug_to_genes disease_to_genes gene_to_idx dmat]
    proximity_zero_iff [of drug_id disease_id drug_to_genes disease_to_genes gene_to_idx dmat 65535]
    network_pair_row_default [of D S G dd drug_id disease_id]
  by blast

theorem no_evidence_results_witness:
  "mean_distance_for_pair ''D'' ''X'' [''D'' \<mapsto> [''A'']] [''X'' \<mapsto> [''B'']]
      [''A'' \<mapsto> 0, ''B'' \<mapsto> 1] [[0, 65535], [65535, 0]] 65535 = Inr PosInf
   \<and> mean_distance_for_pair ''D'' ''X'' [''D'' \<mapsto> [''Q'']] [''X'' \<mapsto> [''B'']]
      [''A'' \<mapsto> 0, ''B'' \<mapsto> 1] [] 65535 = Inr PosInf
   \<and> proximity_of PosInf = 0
   \<and> network_pair_row (precompute_build_ppi_graph [(''A'', ''C''), (''B'', ''E'')]) (Finite 5)
        (''D'', {''A''}) (''X'', {''B''}) =
       Inr \<lparr>px_drug_id = ''D'', px_disease_id = ''X'', mean_distance = Finite 5,
             proximity_score = 1 / 6\<rparr>"
proof -
  have 1: "mean_distance_for_pair ''D'' ''X'' [''D'' \<mapsto> [''A'']] [''X'' \<mapsto> [''B'']]
      [''A'' \<mapsto> 0, ''B'' \<mapsto> 1] [[0, 65535], [65535, 0]] 65535 = Inr PosInf"
    using no_evidence_results [where drug_id = "''D''" and disease_id = "''X''"
        and drug_to_genes = "[''D'' \<mapsto> [''A'']]" and disease_to_genes = "[''X'' \<mapsto> [''B'']]"
        and gene_to_idx = "[''A'' \<mapsto> 0, ''B'' \<mapsto> 1]" and dmat = "[[0, 65535], [65535, 0]]",
        THEN conjunct1]
    by (simp add: gene_set_def dist_lookup_def np_getitem_def)
  have 2: "mean_distance_for_pair ''D'' ''X'' [''D'' \<mapsto> [''Q'']] [''X'' \<mapsto> [''B'']]
      [''A'' \<mapsto> 0, ''B'' \<mapsto> 1] [] 65535 = Inr PosInf"
    using no_evidence_results [where drug_id = "''D''" and disease_id = "''X''"
        and drug_to_genes = "[''D'' \<mapsto> [''Q'']]" and disease_to_genes = "[''X'' \<mapsto> [''B'']]"
        and gene_to_idx = "[''A'' \<mapsto> 0, ''B'' \<mapsto> 1]" and dmat = "[]", THEN conjunct1]
    by (simp add: gene_set_def)
  have nc: "\<not> linked (precompute_build_ppi_graph [(''A'', ''C''), (''B'', ''E'')]) ''A'' ''B''"
  proof
    assume "linked (precompute_build_ppi_graph [(''A'', ''C''), (''B'', ''E'')]) ''A'' ''B''"
    then obtain k where k: "''B'' \<in> lvl (precompute_build_ppi_graph [(''A'', ''C''), (''B'', ''E'')]) ''A'' k"
      by (auto simp: linked_def)
    have inv: "(''A'', b) \<in> edge_rel (precompute_build_ppi_graph [(''A'', ''C''), (''B'', ''E'')]) ^^ n
               \<Longrightarrow> b = ''A'' \<or> b = ''C''" for b n
      by (induction n arbitrary: b) (auto simp: edge_rel_precompute_graph)
    from k inv show False by (auto simp: lvl_def)
  qed
  have 3: "network_pair_row (precompute_build_ppi_graph [(''A'', ''C''), (''B'', ''E'')]) (Finite 5)
        (''D'', {''A''}) (''X'', {''B''}) =
       Inr \<lparr>px_drug_id = ''D'', px_disease_id = ''X'', mean_distance = Finite 5,
             proximity_score = 1 / 6\<rparr>"
    using no_evidence_results [where D = "{''A''}" and S = "{''B''}" and dd = 5
        and G = "precompute_build_ppi_graph [(''A'', ''C''), (''B'', ''E'')]"
        and drug_id = "''D''" and disease_id = "''X''", THEN conjunct2, THEN conjunct2] nc
    by simp
  from 1 2 3 show ?thesis by simp
qed

text \<open>
  Claim C2 as stated fails for \<open>compute_network_proximity\<close>: gene \<open>B\<close> is not in the
  graph, so the pair has no distance evidence, and the row holds mean distance 5 and
  proximity 1/6, not \<open>+inf\<close> and 0.
\<close>

theorem network_proximity_default_counterexample:
  "''B'' \<notin> set (nodes (build_ppi_graph
       [\<lparr>gene1_id = ''A'', gene2_id = ''C'', weight = None, source = ''ppi''\<rparr>]))
   \<and> compute_network_proximity
       (build_ppi_graph [\<lparr>gene1_id = ''A'', gene2_id = ''C'', weight = None, source = ''ppi''\<rparr>])
       [(''D'', {''A''})] [(''X'', {''B''})] (Finite 5)
     = Inr [\<lparr>px_drug_id = ''D'', px_disease_id = ''X'', mean_distance = Finite 5,
              proximity_score = 1 / 6\<rparr>]"
proof -
  have g: "build_ppi_graph [\<lparr>gene1_id = ''A'', gene2_id = ''C'', weight = None, source = ''ppi''\<rparr>]
           = [(''A'', [(''C'', 1)]), (''C'', [(''A'', 1)])]"
    by (simp add: build_ppi_graph_def add_edge_def add_node_def Let_def)
  show ?thesis
    unfolding g by (simp add: compute_network_proximity_def network_pair_row_def nodes_def)
qed

section \<open>Score combiner (src/ddh/scoring.py and the annotation script)\<close>

text \<open>
  The tables are lists of rows. An overlap row and a proximity row carry the columns of
  \<open>compute_overlap_table\<close> and \<open>compute_network_proximity\<close>; a merged row is a row of the
  outer join, where a column of the side without a match is \<open>None\<close> (NaN). Field names
  are prefixed where two tables share a column name.
\<close>

record overlap_row =
  ov_drug_id :: string
  ov_disease_id :: string
  n_overlap :: nat
  overlapping_genes :: string
  jaccard :: "real option"

record merged_row =
  m_drug_id :: string
  m_disease_id :: string
  m_mean_distance :: "pyfloat option"
  m_proximity_score :: "real option"
  m_n_overlap :: "real option"
  m_overlapping_genes :: "string option"
  m_jaccard :: "real option"

record combined_row =
  drug_id :: string
  disease_id :: string
  c_mean_distance :: "pyfloat option"
  c_proximity_score :: real
  c_n_overlap :: real
  c_overlapping_genes :: "string option"
  c_jaccard :: "real option"
  norm_overlap :: real
  combined_score :: real

text \<open>
  \<open>pd.merge(proximity_df, overlap_df, on=["drug_id", "disease_id"], how="outer")\<close>: every
  proximity row with each of its matching overlap rows (or none), then the overlap rows
  without a match, ordered by the join key.
\<close>

definition same_pair :: "proximity_row \<Rightarrow> overlap_row \<Rightarrow> bool" where
  "same_pair p v = (px_drug_id p = ov_drug_id v \<and> px_disease_id p = ov_disease_id v)"

definition join_rows :: "proximity_row option \<Rightarrow> overlap_row option \<Rightarrow> string \<Rightarrow> string \<Rightarrow> merged_row" where
  "join_rows p v d s =
     \<lparr>m_drug_id = d, m_disease_id = s,
      m_mean_distance = map_option mean_distance p,
      m_proximity_score = map_option proximity_score p,
      m_n_overlap = map_option (\<lambda>r. real (n_overlap r)) v,
      m_overlapping_genes = map_option overlapping_genes v,
      m_jaccard = Option.bind v jaccard\<rparr>"

definition outer_merge :: "proximity_row list \<Rightarrow> overlap_row list \<Rightarrow> merged_row list" where
  "outer_merge proximity_df overlap_df =
     sort_key (\<lambda>m. (m_drug_id m, m_disease_id m))
       (concat (map (\<lambda>p. case filter (same_pair p) overlap_df of
                             [] \<Rightarrow> [join_rows (Some p) None (px_drug_id p) (px_disease_id p)]
                           | vs \<Rightarrow> map (\<lambda>v. join_rows (Some p) (Some v) (px_drug_id p) (px_disease_id p)) vs)
                    proximity_df)
        @ map (\<lambda>v. join_rows None (Some v) (ov_drug_id v) (ov_disease_id v))
              (filter (\<lambda>v. \<not> list_ex (\<lambda>p. same_pair p v) proximity_df) overlap_df))"

text \<open>
  \<open>combine_overlap_and_proximity\<close>: \<open>n_overlap\<close> and \<open>proximity_score\<close> get \<open>fillna(0)\<close>,
  \<open>max_overlap\<close> is the column maximum (0 for a table without rows),
  \<open>norm_overlap = n_overlap / max_overlap\<close> when \<open>max_overlap > 0\<close> and 0 otherwise, and
  the result is sorted descending by combined score, proximity score and overlap.
\<close>

definition fillna :: "real \<Rightarrow> real option \<Rightarrow> real" where
  "fillna d x = (case x of None \<Rightarrow> d | Some y \<Rightarrow> y)"

definition combine_overlap_and_proximity ::
  "overlap_row list \<Rightarrow> proximity_row list \<Rightarrow> real \<Rightarrow> real \<Rightarrow> combined_row list" where
  "combine_overlap_and_proximity overlap_df proximity_df alpha beta =
     (let df = outer_merge proximity_df overlap_df;
          ns = map (\<lambda>m. fillna 0 (m_n_overlap m)) df;
          max_overlap = (if ns = [] then 0 else Max (set ns));
          rows = map (\<lambda>m.
                   let n = fillna 0 (m_n_overlap m);
                       norm = (if max_overlap > 0 then n / max_overlap else 0);
                       p = fillna 0 (m_proximity_score m)
                   in \<lparr>drug_id = m_drug_id m, disease_id = m_disease_id m,
                        c_mean_distance = m_mean_distance m, c_proximity_score = p,
                        c_n_overlap = n, c_overlapping_genes = m_overlapping_genes m,
                        c_jaccard = m_jaccard m, norm_overlap = norm,
                        combined_score = alpha * norm + beta * p\<rparr>) df
      in sort_key (\<lambda>r. (- combined_score r, - c_proximity_score r, - c_n_overlap r)) rows)"

text \<open>
  \<open>add_combined_score\<close> of the annotation script works on the columns of the annotated
  pairs table; \<open>n_overlap\<close> may be absent. It min-max-normalises both columns
  (\<open>x * 0.0\<close> when the maximum does not exceed the minimum).
\<close>

record pairs_df =
  proximity_col :: "real list"
  n_overlap_col :: "real list option"

definition minmax_col :: "real list \<Rightarrow> real list" where
  "minmax_col xs =
     (if xs \<noteq> [] \<and> Max (set xs) > Min (set xs)
      then map (\<lambda>x. (x - Min (set xs)) / (Max (set xs) - Min (set xs))) xs
      else map (\<lambda>x. x * 0) xs)"

definition add_combined_score :: "pairs_df \<Rightarrow> real \<Rightarrow> real \<Rightarrow> real list" where
  "add_combined_score df alpha beta =
     (let prox_norm = minmax_col (proximity_col df) in
      case n_overlap_col df of
        Some ov \<Rightarrow> map (\<lambda>(ov_norm, p). alpha * ov_norm + beta * p) (zip (minmax_col ov) prox_norm)
      | None \<Rightarrow> map (\<lambda>p. beta * p) prox_norm)"

text \<open>
  Min-max normalisation in the specification's words: \<open>(x - min) / (max - min)\<close> over the
  batch, and 0 for every row when the maximum equals the minimum.
\<close>

definition spec_minmax :: "real list \<Rightarrow> real \<Rightarrow> real" where
  "spec_minmax batch x =
     (if Max (set batch) = Min (set batch) then 0
      else (x - Min (set batch)) / (Max (set batch) - Min (set batch)))"

lemma spec_minmax_col: "map (spec_minmax xs) xs = minmax_col xs"
proof (cases "xs = []")
  case True
  then show ?thesis by (simp add: minmax_col_def)
next
  case False
  then have "Min (set xs) \<le> Max (set xs)" by simp
  then have "Max (set xs) > Min (set xs) \<longleftrightarrow> Max (set xs) \<noteq> Min (set xs)" by auto
  with False show ?thesis by (auto simp: minmax_col_def spec_minmax_def)
qed

lemma outer_merge_rows:
  assumes "m \<in> set (outer_merge proximity_df overlap_df)"
  shows "\<exists>p v d s. m = join_rows p v d s \<and> (p = None \<or> (\<exists>q\<in>set proximity_df. p = Some q))"
proof -
  from assms consider
    (L) p where "p \<in> set proximity_df"
      "m \<in> set (case filter (same_pair p) overlap_df of
                  [] \<Rightarrow> [join_rows (Some p) None (px_drug_id p) (px_disease_id p)]
                | vs \<Rightarrow> map (\<lambda>v. join_rows (Some p) (Some v) (px_drug_id p) (px_disease_id p)) vs)"
    | (R) v where "m = join_rows None (Some v) (ov_drug_id v) (ov_disease_id v)"
    unfolding outer_merge_def by auto
  then show ?thesis
  proof cases
    case L
    show ?thesis
    proof (cases "filter (same_pair p) overlap_df")
      case Nil
      with L show ?thesis by auto
    next
      case (Cons v vs)
      with L(2) obtain v' where "m = join_rows (Some p) (Some v') (px_drug_id p) (px_disease_id p)"
        by auto
      with L(1) show ?thesis by blast
    qed
  next
    case R
    then show ?thesis by blast
  qed
qed

lemma merged_n_overlap_nonneg:
  assumes "m \<in> set (outer_merge proximity_df overlap_df)"
  shows "0 \<le> fillna 0 (m_n_overlap m)"
proof -
  from outer_merge_rows [OF assms] obtain p v d s where "m = join_rows p v d s"
    by blast
  then show ?thesis
    by (cases v) (simp_all add: join_rows_def fillna_def)
qed

lemma merged_proximity:
  assumes "m \<in> set (outer_merge proximity_df overlap_df)"
  shows "fillna 0 (m_proximity_score m) \<in> insert 0 (proximity_score ` set proximity_df)"
proof -
  from outer_merge_rows [OF assms] obtain p v d s where
    "m = join_rows p v d s" "p = None \<or> (\<exists>q\<in>set proximity_df. p = Some q)"
    by blast
  then show ?thesis
    by (auto simp: join_rows_def fillna_def)
qed

text \<open>
  Claim C3 (as amended). In the table of \<open>combine_overlap_and_proximity\<close> every row has
  \<open>norm_overlap = n_overlap / max\<close> over the batch maximum when that is positive and 0
  otherwise, a value in \<open>[0, 1]\<close>; the combined score is
  \<open>alpha * norm_overlap + beta * proximity_score\<close>, where the proximity score is the input
  value (0 where the pair has none), not normalised. This is min-max normalisation when the
  batch minimum is 0. \<open>add_combined_score\<close> min-max-normalises both columns.
\<close>

theorem combined_score_formula:
  assumes r: "r \<in> set (combine_overlap_and_proximity overlap_df proximity_df alpha beta)"
  shows "norm_overlap r =
           (if Max (c_n_overlap ` set (combine_overlap_and_proximity overlap_df proximity_df alpha beta)) > 0
            then c_n_overlap r
                 / Max (c_n_overlap ` set (combine_overlap_and_proximity overlap_df proximity_df alpha beta))
            else 0)
       \<and> 0 \<le> norm_overlap r \<and> norm_overlap r \<le> 1
       \<and> combined_score r = alpha * norm_overlap r + beta * c_proximity_score r
       \<and> c_proximity_score r \<in> insert 0 (proximity_score ` set proximity_df)
       \<and> (Min (c_n_overlap ` set (combine_overlap_and_proximity overlap_df proximity_df alpha beta)) = 0
            \<longrightarrow> norm_overlap r =
                  spec_minmax (map c_n_overlap (combine_overlap_and_proximity overlap_df proximity_df alpha beta))
                    (c_n_overlap r))
       \<and> add_combined_score \<lparr>proximity_col = ps, n_overlap_col = Some ns\<rparr> alpha beta =
            map (\<lambda>(n, p). alpha * n + beta * p) (zip (map (spec_minmax ns) ns) (map (spec_minmax ps) ps))"
proof -
  define df where "df = outer_merge proximity_df overlap_df"
  define M where "M = Max (set (map (\<lambda>m. fillna 0 (m_n_overlap m)) df))"
  define fin where "fin = (\<lambda>m :: merged_row.
     \<lparr>drug_id = m_drug_id m, disease_id = m_disease_id m,
      c_mean_distance = m_mean_distance m, c_proximity_score = fillna 0 (m_proximity_score m),
      c_n_overlap = fillna 0 (m_n_overlap m), c_overlapping_genes = m_overlapping_genes m,
      c_jaccard = m_jaccard m,
      norm_overlap = (if M > 0 then fillna 0 (m_n_overlap m) / M else 0),
      combined_score = alpha * (if M > 0 then fillna 0 (m_n_overlap m) / M else 0)
                       + beta * fillna 0 (m_proximity_score m)\<rparr>)"
  let ?rows = "combine_overlap_and_proximity overlap_df proximity_df alpha beta"
  have rows_empty: "?rows = []" if "df = []"
    using that by (simp add: combine_overlap_and_proximity_def df_def [symmetric])
  from r rows_empty have ne: "df \<noteq> []" by auto
  have set_rows: "set ?rows = fin ` set df"
    using ne
    by (simp add: combine_overlap_and_proximity_def df_def [symmetric] Let_def fin_def M_def
        cong: if_cong)
  have ns: "c_n_overlap ` set ?rows = (\<lambda>m. fillna 0 (m_n_overlap m)) ` set df"
    unfolding set_rows by (force simp: fin_def)
  have M: "Max (c_n_overlap ` set ?rows) = M"
    unfolding ns M_def by simp
  from r set_rows obtain m where m: "m \<in> set df" "r = fin m" by auto
  let ?n = "fillna 0 (m_n_overlap m)"
  have n0: "0 \<le> ?n"
    using m(1) merged_n_overlap_nonneg unfolding df_def by blast
  have nM: "?n \<le> M"
    unfolding M_def using m(1) by (intro Max_ge) auto
  have norm: "norm_overlap r = (if M > 0 then c_n_overlap r / M else 0)"
    by (simp add: m(2) fin_def)
  have bounds: "0 \<le> norm_overlap r \<and> norm_overlap r \<le> 1"
    using n0 nM by (simp add: m(2) fin_def)
  have comb: "combined_score r = alpha * norm_overlap r + beta * c_proximity_score r"
    by (simp add: m(2) fin_def)
  have px: "c_proximity_score r \<in> insert 0 (proximity_score ` set proximity_df)"
    using merged_proximity [of m proximity_df overlap_df] m(1)
    by (simp add: m(2) fin_def df_def)
  have mm: "norm_overlap r = spec_minmax (map c_n_overlap ?rows) (c_n_overlap r)"
    if z: "Min (c_n_overlap ` set ?rows) = 0"
  proof -
    have "set (map c_n_overlap ?rows) = c_n_overlap ` set ?rows" by simp
    then have sm: "spec_minmax (map c_n_overlap ?rows) (c_n_overlap r) =
          (if M = 0 then 0 else c_n_overlap r / M)"
      unfolding spec_minmax_def by (simp add: M z)
    have "0 \<le> M" using n0 nM by simp
    then show ?thesis unfolding sm norm by auto
  qed
  have acs: "add_combined_score \<lparr>proximity_col = ps, n_overlap_col = Some ns\<rparr> alpha beta =
            map (\<lambda>(n, p). alpha * n + beta * p) (zip (map (spec_minmax ns) ns) (map (spec_minmax ps) ps))"
    by (simp add: add_combined_score_def spec_minmax_col)
  from norm bounds comb px mm acs show ?thesis
    unfolding M by blast
qed


text \<open>
  The round trip of the specification: overlaps 0, 2, 4 and proximity scores 0.1, 0.5, 0.9
  with \<open>alpha = beta = 1\<close> give normalised overlaps 0, 0.5, 1 and combined scores 0.1, 1.0,
  1.9, best first.
\<close>

theorem combined_score_formula_witness:
  "combine_overlap_and_proximity
     [\<lparr>ov_drug_id = ''D2'', ov_disease_id = ''X2'', n_overlap = 2, overlapping_genes = ''A;B'', jaccard = Some (1 / 2)\<rparr>,
      \<lparr>ov_drug_id = ''D3'', ov_disease_id = ''X3'', n_overlap = 4, overlapping_genes = ''A;B;C;E'', jaccard = Some 1\<rparr>]
     [\<lparr>px_drug_id = ''D1'', px_disease_id = ''X1'', mean_distance = Finite 9, proximity_score = 1 / 10\<rparr>,
      \<lparr>px_drug_id = ''D2'', px_disease_id = ''X2'', mean_distance = Finite 1, proximity_score = 1 / 2\<rparr>,
      \<lparr>px_drug_id = ''D3'', px_disease_id = ''X3'', mean_distance = Finite (1 / 9), proximity_score = 9 / 10\<rparr>]
     1 1
   = [\<lparr>drug_id = ''D3'', disease_id = ''X3'', c_mean_distance = Some (Finite (1 / 9)),
        c_proximity_score = 9 / 10, c_n_overlap = 4, c_overlapping_genes = Some ''A;B;C;E'',
        c_jaccard = Some 1, norm_overlap = 1, combined_score = 19 / 10\<rparr>,
      \<lparr>drug_id = ''D2'', disease_id = ''X2'', c_mean_distance = Some (Finite 1),
        c_proximity_score = 1 / 2, c_n_overlap = 2, c_overlapping_genes = Some ''A;B'',
        c_jaccard = Some (1 / 2), norm_overlap = 1 / 2, combined_score = 1\<rparr>,
      \<lparr>drug_id = ''D1'', disease_id = ''X1'', c_mean_distance = Some (Finite 9),
        c_proximity_score = 1 / 10, c_n_overlap = 0, c_overlapping_genes = None,
        c_jaccard = None, norm_overlap = 0, combined_score = 1 / 10\<rparr>]
   \<and> (1 / 2 :: real) = spec_minmax [4, 2, 0] 2"
proof -
  let ?ov = "[\<lparr>ov_drug_id = ''D2'', ov_disease_id = ''X2'', n_overlap = 2, overlapping_genes = ''A;B'', jaccard = Some (1 / 2)\<rparr>,
      \<lparr>ov_drug_id = ''D3'', ov_disease_id = ''X3'', n_overlap = 4, overlapping_genes = ''A;B;C;E'', jaccard = Some 1\<rparr>]"
  let ?px = "[\<lparr>px_drug_id = ''D1'', px_disease_id = ''X1'', mean_distance = Finite 9, proximity_score = 1 / 10\<rparr>,
      \<lparr>px_drug_id = ''D2'', px_disease_id = ''X2'', mean_distance = Finite 1, proximity_score = 1 / 2\<rparr>,
      \<lparr>px_drug_id = ''D3'', px_disease_id = ''X3'', mean_distance = Finite (1 / 9), proximity_score = 9 / 10\<rparr>]"
  let ?r2 = "\<lparr>drug_id = ''D2'', disease_id = ''X2'', c_mean_distance = Some (Finite 1),
        c_proximity_score = 1 / 2, c_n_overlap = 2, c_overlapping_genes = Some ''A;B'',
        c_jaccard = Some (1 / 2), norm_overlap = 1 / 2, combined_score = 1\<rparr>"
  have ev: "combine_overlap_and_proximity ?ov ?px 1 1
   = [\<lparr>drug_id = ''D3'', disease_id = ''X3'', c_mean_distance = Some (Finite (1 / 9)),
        c_proximity_score = 9 / 10, c_n_overlap = 4, c_overlapping_genes = Some ''A;B;C;E'',
        c_jaccard = Some 1, norm_overlap = 1, combined_score = 19 / 10\<rparr>,
      ?r2,
      \<lparr>drug_id = ''D1'', disease_id = ''X1'', c_mean_distance = Some (Finite 9),
        c_proximity_score = 1 / 10, c_n_overlap = 0, c_overlapping_genes = None,
        c_jaccard = None, norm_overlap = 0, combined_score = 1 / 10\<rparr>]"
    by (simp add: combine_overlap_and_proximity_def outer_merge_def same_pair_def join_rows_def
        fillna_def Let_def less_eq_prod_def less_prod_def)
  have mem: "?r2 \<in> set (combine_overlap_and_proximity ?ov ?px 1 1)"
    unfolding ev by simp
  have "Min (c_n_overlap ` set (combine_overlap_and_proximity ?ov ?px 1 1)) = 0"
    unfolding ev by simp
  with combined_score_formula [OF mem] have
    "norm_overlap ?r2 = spec_minmax (map c_n_overlap (combine_overlap_and_proximity ?ov ?px 1 1))
                          (c_n_overlap ?r2)"
    by blast
  then have "(1 / 2 :: real) = spec_minmax [4, 2, 0] 2"
    unfolding ev by simp
  with ev show ?thesis by blast
qed

text \<open>
  Claim C3 as stated fails twice. In \<open>combine_overlap_and_proximity\<close> a batch whose rows
  all have overlap 3 (maximum equal to minimum) is normalised to 1 in every row, where
  min-max normalisation gives 0. In \<open>add_combined_score\<close> the proximity score is
  normalised too: the example of the specification yields 0, 1, 2 instead of 0.1, 1.0, 1.9.
\<close>

theorem combined_score_counterexample:
  "map norm_overlap (combine_overlap_and_proximity
     [\<lparr>ov_drug_id = ''D1'', ov_disease_id = ''X1'', n_overlap = 3, overlapping_genes = ''A;B;C'', jaccard = Some 1\<rparr>,
      \<lparr>ov_drug_id = ''D2'', ov_disease_id = ''X2'', n_overlap = 3, overlapping_genes = ''E;F;G'', jaccard = Some 1\<rparr>]
     [\<lparr>px_drug_id = ''D1'', px_disease_id = ''X1'', mean_distance = PosInf, proximity_score = 0\<rparr>,
      \<lparr>px_drug_id = ''D2'', px_disease_id = ''X2'', mean_distance = PosInf, proximity_score = 0\<rparr>]
     1 1) = [1, 1]
   \<and> map (spec_minmax [3, 3]) [3, 3] = [0, 0]
   \<and> add_combined_score \<lparr>proximity_col = [1 / 10, 1 / 2, 9 / 10], n_overlap_col = Some [0, 2, 4]\<rparr> 1 1
       = [0, 1, 2]
   \<and> map (\<lambda>(n, p). 1 * spec_minmax [0, 2, 4] n + 1 * p) (zip [0, 2, 4] [1 / 10, 1 / 2, 9 / 10])
       = [1 / 10, 1, 19 / 10 :: real]"
  by (simp add: combine_overlap_and_proximity_def outer_merge_def same_pair_def join_rows_def
        fillna_def Let_def less_eq_prod_def less_prod_def spec_minmax_def add_combined_score_def
        minmax_col_def)

section \<open>Overlap tables (src/ddh/scoring.py)\<close>

text \<open>
  An association record carries the fields of the dataclasses in src/ddh/data\_models.py; the
  identifiers are strings, so a record has no null identifier and the \<open>dropna\<close> calls of
  \<open>compute_overlap_table_fast\<close> keep every row. A Python dict of sets is an association list
  in insertion order with distinct keys. Counts are natural numbers and the Jaccard index is
  a real number: both functions divide the same two integers.
\<close>

record DrugTargetAssoc =
  dt_drug_id :: string
  dt_gene_id :: gene
  dt_source :: string
  dt_score :: "real option"

record GeneDiseaseAssoc =
  gd_gene_id :: gene
  gd_disease_id :: string
  gd_source :: string
  gd_score :: "real option"

text \<open>
  One iteration of the loops of \<open>build_drug_target_map\<close> and \<open>build_disease_gene_map\<close>: a new
  key is appended with the empty set, then the gene is added to the key's set.
\<close>

definition setdefault_add :: "string \<Rightarrow> gene \<Rightarrow> (string \<times> gene set) list \<Rightarrow> (string \<times> gene set) list" where
  "setdefault_add k g mapping =
     AList.map_entry k (insert g)
       (if k \<notin> fst ` set mapping then mapping @ [(k, {})] else mapping)"

definition build_drug_target_map :: "DrugTargetAssoc list \<Rightarrow> (string \<times> gene set) list" where
  "build_drug_target_map drug_targets =
     foldl (\<lambda>mapping assoc. setdefault_add (dt_drug_id assoc) (dt_gene_id assoc) mapping) [] drug_targets"

definition build_disease_gene_map :: "GeneDiseaseAssoc list \<Rightarrow> (string \<times> gene set) list" where
  "build_disease_gene_map gene_diseases =
     foldl (\<lambda>mapping assoc. setdefault_add (gd_disease_id assoc) (gd_gene_id assoc) mapping) [] gene_diseases"

text \<open>\<open>sep.join(xs)\<close> of Python.\<close>

fun join :: "string \<Rightarrow> string list \<Rightarrow> string" where
  "join sep [] = []"
| "join sep [x] = x"
| "join sep (x # y # ys) = x @ sep @ join sep (y # ys)"

text \<open>
  \<open>sort_values\<close> by \<open>n_overlap\<close> and \<open>jaccard\<close> descending, then \<open>drug_id\<close> and \<open>disease_id\<close>
  ascending; a missing \<open>jaccard\<close> sorts last. The sort on several columns is stable.
\<close>

definition sort_values :: "overlap_row list \<Rightarrow> overlap_row list" where
  "sort_values rows =
     sort_key (\<lambda>r. (- int (n_overlap r),
                     (case jaccard r of Some j \<Rightarrow> (0 :: nat, - j) | None \<Rightarrow> (1, 0)),
                     ov_drug_id r, ov_disease_id r)) rows"

text \<open>
  A data frame is its column header and its rows. \<open>pd.DataFrame(rows)\<close> of a list of dicts
  takes the header from the dicts, so the frame of an empty list has no columns;
  \<open>pd.DataFrame(columns=...)\<close> is an empty frame with the given header.
\<close>

record overlap_frame =
  df_columns :: "string list"
  df_rows :: "overlap_row list"

definition overlap_columns :: "string list" where
  "overlap_columns = [''drug_id'', ''disease_id'', ''n_overlap'', ''overlapping_genes'', ''jaccard'']"

definition frame_of_records :: "overlap_row list \<Rightarrow> overlap_frame" where
  "frame_of_records records =
     \<lparr>df_columns = (if records = [] then [] else overlap_columns), df_rows = records\<rparr>"

definition frame_of_columns :: "string list \<Rightarrow> overlap_frame" where
  "frame_of_columns names = \<lparr>df_columns = names, df_rows = []\<rparr>"

text \<open>The nested loops of \<open>compute_overlap_table\<close>, which collect \<open>rows\<close>.\<close>

definition overlap_rows ::
  "(string \<times> gene set) list \<Rightarrow> (string \<times> gene set) list \<Rightarrow> overlap_row list" where
  "overlap_rows drug_to_genes disease_to_genes =
       (concat (map (\<lambda>(drug_id, drug_genes).
          concat (map (\<lambda>(disease_id, disease_genes).
            let inter = drug_genes \<inter> disease_genes in
            if inter = {} then []
            else
              let union = drug_genes \<union> disease_genes;
                  n_overlap = card inter;
                  jaccard = (if union \<noteq> {} then real n_overlap / real (card union) else 0)
              in [\<lparr>ov_drug_id = drug_id, ov_disease_id = disease_id, n_overlap = n_overlap,
                    overlapping_genes = join '';'' (sorted_list_of_set inter),
                    jaccard = Some jaccard\<rparr>])
            disease_to_genes))
          drug_to_genes))"

definition compute_overlap_table ::
  "(string \<times> gene set) list \<Rightarrow> (string \<times> gene set) list \<Rightarrow> overlap_frame" where
  "compute_overlap_table drug_to_genes disease_to_genes =
     (let df = frame_of_records (overlap_rows drug_to_genes disease_to_genes)
      in if df_rows df \<noteq> [] then df\<lparr>df_rows := sort_values (df_rows df)\<rparr> else df)"

text \<open>
  \<open>df.groupby(key)[col].nunique()\<close> on a two-column table, and the inner join of the two edge
  tables on \<open>gene_id\<close>.
\<close>

definition groupby_nunique :: "(string \<times> gene) list \<Rightarrow> (string \<times> nat) list" where
  "groupby_nunique df =
     map (\<lambda>k. (k, card (set (map snd (filter (\<lambda>(k', g). k' = k) df)))))
         (sorted_list_of_set (set (map fst df)))"

definition inner_merge ::
  "(string \<times> gene) list \<Rightarrow> (gene \<times> string) list \<Rightarrow> (string \<times> gene \<times> string) list" where
  "inner_merge dt_df gd_df =
     concat (map (\<lambda>(d, g). map (\<lambda>(g', s). (d, g, s)) (filter (\<lambda>(g', s). g' = g) gd_df)) dt_df)"

text \<open>
  The grouped aggregate runs over the pairs of the join in sorted order. The left joins with
  the two gene counts are lookups that may miss, and a zero union size is replaced by a
  missing value before the division; the header after dropping the two count columns is
  \<open>overlap_columns\<close>.
\<close>

definition compute_overlap_table_fast ::
  "DrugTargetAssoc list \<Rightarrow> GeneDiseaseAssoc list \<Rightarrow> overlap_frame" where
  "compute_overlap_table_fast drug_targets gene_diseases =
     (if drug_targets = [] \<or> gene_diseases = [] then frame_of_columns overlap_columns
      else
        let dt_df = map (\<lambda>a. (dt_drug_id a, dt_gene_id a)) drug_targets;
            gd_df = map (\<lambda>a. (gd_gene_id a, gd_disease_id a)) gene_diseases;
            n_genes_per_drug = groupby_nunique dt_df;
            n_genes_per_disease = groupby_nunique (map (\<lambda>(g, s). (s, g)) gd_df);
            merged = inner_merge dt_df gd_df
        in if merged = [] then frame_of_columns overlap_columns
           else
             let overlap_df =
                   map (\<lambda>(d, s).
                          let x = map (\<lambda>(d', g, s'). g) (filter (\<lambda>(d', g, s'). d' = d \<and> s' = s) merged)
                          in (d, s, card (set x), join '';'' (sorted_list_of_set (set x))))
                       (sorted_list_of_set (set (map (\<lambda>(d, g, s). (d, s)) merged)));
                 rows =
                   map (\<lambda>(d, s, n, genes).
                          let n_drug_genes = map_of n_genes_per_drug d;
                              n_disease_genes = map_of n_genes_per_disease s;
                              union_size =
                                (case (n_drug_genes, n_disease_genes) of
                                   (Some a, Some b) \<Rightarrow> Some (int a + int b - int n)
                                 | _ \<Rightarrow> None)
                          in \<lparr>ov_drug_id = d, ov_disease_id = s, n_overlap = n,
                               overlapping_genes = genes,
                               jaccard =
                                 (case union_size of
                                    Some u \<Rightarrow> if u = 0 then None else Some (real n / real_of_int u)
                                  | None \<Rightarrow> None)\<rparr>)
                       overlap_df
             in \<lparr>df_columns = overlap_columns, df_rows = sort_values rows\<rparr>)"

subsection \<open>Sorting a table whose keys are all different\<close>




subsection \<open>The grouped maps\<close>















subsection \<open>Both tables as one row function over the overlapping pairs\<close>






















text \<open>Both functions on two drugs and two diseases, and on a pair without a shared gene.\<close>

lemma compute_overlap_table_fast_example:
  "compute_overlap_table_fast
     [\<lparr>dt_drug_id = ''D1'', dt_gene_id = ''G1'', dt_source = ''chembl'', dt_score = None\<rparr>,
      \<lparr>dt_drug_id = ''D1'', dt_gene_id = ''G2'', dt_source = ''chembl'', dt_score = None\<rparr>,
      \<lparr>dt_drug_id = ''D2'', dt_gene_id = ''G2'', dt_source = ''chembl'', dt_score = None\<rparr>]
     [\<lparr>gd_gene_id = ''G1'', gd_disease_id = ''X1'', gd_source = ''ot'', gd_score = None\<rparr>,
      \<lparr>gd_gene_id = ''G2'', gd_disease_id = ''X1'', gd_source = ''ot'', gd_score = None\<rparr>,
      \<lparr>gd_gene_id = ''G2'', gd_disease_id = ''X2'', gd_source = ''ot'', gd_score = None\<rparr>] =
   \<lparr>df_columns = [''drug_id'', ''disease_id'', ''n_overlap'', ''overlapping_genes'', ''jaccard''],
    df_rows =
     [\<lparr>ov_drug_id = ''D1'', ov_disease_id = ''X1'', n_overlap = 2,
        overlapping_genes = ''G1;G2'', jaccard = Some 1\<rparr>,
      \<lparr>ov_drug_id = ''D2'', ov_disease_id = ''X2'', n_overlap = 1,
        overlapping_genes = ''G2'', jaccard = Some 1\<rparr>,
      \<lparr>ov_drug_id = ''D1'', ov_disease_id = ''X2'', n_overlap = 1,
        overlapping_genes = ''G2'', jaccard = Some (1 / 2)\<rparr>,
      \<lparr>ov_drug_id = ''D2'', ov_disease_id = ''X1'', n_overlap = 1,
        overlapping_genes = ''G2'', jaccard = Some (1 / 2)\<rparr>]\<rparr>"
  by code_simp

lemma compute_overlap_table_example:
  "compute_overlap_table
     (build_drug_target_map
       [\<lparr>dt_drug_id = ''D1'', dt_gene_id = ''G1'', dt_source = ''chembl'', dt_score = None\<rparr>,
        \<lparr>dt_drug_id = ''D1'', dt_gene_id = ''G2'', dt_source = ''chembl'', dt_score = None\<rparr>,
        \<lparr>dt_drug_id = ''D2'', dt_gene_id = ''G2'', dt_source = ''chembl'', dt_score = None\<rparr>])
     (build_disease_gene_map
       [\<lparr>gd_gene_id = ''G1'', gd_disease_id = ''X1'', gd_source = ''ot'', gd_score = None\<rparr>,
        \<lparr>gd_gene_id = ''G2'', gd_disease_id = ''X1'', gd_source = ''ot'', gd_score = None\<rparr>,
        \<lparr>gd_gene_id = ''G2'', gd_disease_id = ''X2'', gd_source = ''ot'', gd_score = None\<rparr>]) =
   \<lparr>df_columns = [''drug_id'', ''disease_id'', ''n_overlap'', ''overlapping_genes'', ''jaccard''],
    df_rows =
     [\<lparr>ov_drug_id = ''D1'', ov_disease_id = ''X1'', n_overlap = 2,
        overlapping_genes = ''G1;G2'', jaccard = Some 1\<rparr>,
      \<lparr>ov_drug_id = ''D2'', ov_disease_id = ''X2'', n_overlap = 1,
        overlapping_genes = ''G2'', jaccard = Some 1\<rparr>,
      \<lparr>ov_drug_id = ''D1'', ov_disease_id = ''X2'', n_overlap = 1,
        overlapping_genes = ''G2'', jaccard = Some (1 / 2)\<rparr>,
      \<lparr>ov_drug_id = ''D2'', ov_disease_id = ''X1'', n_overlap = 1,
        overlapping_genes = ''G2'', jaccard = Some (1 / 2)\<rparr>]\<rparr>"
  by code_simp

lemma empty_overlap_tables_example:
  "compute_overlap_table_fast
     [\<lparr>dt_drug_id = ''D1'', dt_gene_id = ''G1'', dt_source = ''chembl'', dt_score = None\<rparr>]
     [\<lparr>gd_gene_id = ''G2'', gd_disease_id = ''X1'', gd_source = ''ot'', gd_score = None\<rparr>] =
   \<lparr>df_columns = [''drug_id'', ''disease_id'', ''n_overlap'', ''overlapping_genes'', ''jaccard''],
    df_rows = []\<rparr> \<and>
   compute_overlap_table
     (build_drug_target_map
       [\<lparr>dt_drug_id = ''D1'', dt_gene_id = ''G1'', dt_source = ''chembl'', dt_score = None\<rparr>])
     (build_disease_gene_map
       [\<lparr>gd_gene_id = ''G2'', gd_disease_id = ''X1'', gd_source = ''ot'', gd_score = None\<rparr>]) =
   \<lparr>df_columns = [], df_rows = []\<rparr>"
  by code_simp

end
